theory Spec2Isabelle
  imports Complex_Main "HOL-Library.Word" "HOL-Library.Multiset"
begin

unbundle bit_operations_syntax

section \<open>Data model\<close>

text \<open>
  The development follows \<^verbatim>\<open>src/themerator.py\<close> (class \<^verbatim>\<open>Theme\<close>).
  A colour is the RGB tuple that the colour-quantisation library hands over: three Python
  integers. Python integers are unbounded, so the channels are \<^typ>\<open>int\<close>; the range
  \<^verbatim>\<open>[0, 256)\<close> is a property of well-formed colours, stated where it is needed.
\<close>

type_synonym colour = "int \<times> int \<times> int"

text \<open>
  Every exception that the modelled methods can raise is a value:
  \<^item> \<open>BadHighlight\<close>: \<^verbatim>\<open>ValueError("Bad highlight selection")\<close> of \<^verbatim>\<open>prominence\<close>;
  \<^item> \<open>EmptySequence\<close>: the \<^verbatim>\<open>ValueError\<close> of \<^verbatim>\<open>min([])\<close>;
  \<^item> \<open>KeyError k\<close>: a dictionary lookup of the missing key \<open>k\<close>;
  \<^item> \<open>IndexError\<close>: \<^verbatim>\<open>[...][0]\<close> or \<^verbatim>\<open>pop()\<close> on an empty list;
  \<^item> \<open>TooFewColours n\<close>: \<^verbatim>\<open>ValueError(f"can only find {n} (< 8) distinct colours")\<close>;
  \<^item> \<open>UnboundLocal\<close>: reading the local \<^verbatim>\<open>n\<close> of \<^verbatim>\<open>filter_palette\<close> before any round
    has assigned it;
  \<^item> \<open>AssertionError\<close>: the failed \<^verbatim>\<open>assert\<close> of \<^verbatim>\<open>_rgb_to_hex\<close>;
  \<^item> \<open>NotHex\<close>: the \<^verbatim>\<open>ValueError\<close> of \<^verbatim>\<open>int(s, 16)\<close> on a string that is not a numeral.
\<close>

datatype error =
    BadHighlight
  | EmptySequence
  | KeyError string
  | IndexError
  | TooFewColours nat
  | UnboundLocal
  | AssertionError
  | NotHex

definition py_sum :: "colour \<Rightarrow> int" where
  "py_sum c = (case c of (r, g, b) \<Rightarrow> r + g + b)"

definition channels :: "colour \<Rightarrow> int list" where
  "channels c = (case c of (r, g, b) \<Rightarrow> [r, g, b])"

fun py_min :: "int list \<Rightarrow> error + int" where
  "py_min [] = Inl EmptySequence"
| "py_min (x # xs) = Inr (fold min xs x)"

section \<open>Scoring: prominence\<close>

definition hue_names :: "string list" where
  "hue_names = [''red'', ''green'', ''blue'']"

text \<open>
  \<^verbatim>\<open>prominence(rgb, highlights)\<close>. The callers in \<^verbatim>\<open>assign_palette\<close> always pass a
  list, so the wrapping of a non-list argument is not part of the model. The channels are
  paired with the three hue names in order; a channel is desired when its name is among
  the highlights. The result is the minimum of all differences desired minus undesired,
  and \<^verbatim>\<open>min\<close> raises when there is no such pair.
\<close>

definition prominence :: "colour \<Rightarrow> string list \<Rightarrow> error + int" where
  "prominence rgb highlights =
     (if \<exists>highlight \<in> set highlights. highlight \<notin> set hue_names then Inl BadHighlight
      else
        let pairs = zip (channels rgb) hue_names;
            desired = map fst (filter (\<lambda>(colour, string). string \<in> set highlights) pairs);
            undesired = map fst (filter (\<lambda>(colour, string). string \<notin> set highlights) pairs)
        in py_min (concat (map (\<lambda>d. map (\<lambda>u. d - u) undesired) desired)))"

text \<open>
  The reading of the specification: the channel that a hue name denotes, and the set of
  all differences between a desired and an undesired channel.
\<close>

definition channel :: "colour \<Rightarrow> string \<Rightarrow> int" where
  "channel c h =
     (case c of (r, g, b) \<Rightarrow>
        if h = ''red'' then r else if h = ''green'' then g else b)"

definition hue_differences :: "colour \<Rightarrow> string set \<Rightarrow> int set" where
  "hue_differences c H =
     (\<lambda>(d, u). channel c d - channel c u) ` (H \<times> (set hue_names - H))"

section \<open>Hexadecimal rendering\<close>

text \<open>
  \<^verbatim>\<open>hex(n)[2:]\<close> for an integer: Python writes \<^verbatim>\<open>0x\<close> (or \<^verbatim>\<open>-0x\<close>) followed by the
  lower-case digits of the magnitude, without leading zeros.
\<close>

definition hex_digit :: "nat \<Rightarrow> char" where
  "hex_digit d = ''0123456789abcdef'' ! d"

function hex_nat :: "nat \<Rightarrow> string" where
  "hex_nat n = (if n < 16 then [hex_digit n] else hex_nat (n div 16) @ [hex_digit (n mod 16)])"
  by pat_completeness auto
termination
  by (relation "measure id") auto

declare hex_nat.simps [simp del]

definition py_hex :: "int \<Rightarrow> string" where
  "py_hex n = (if n < 0 then ''-0x'' @ hex_nat (nat (- n)) else ''0x'' @ hex_nat (nat n))"

text \<open>
  \<^verbatim>\<open>_pad = lambda x: "0" * (2 - len(x)) + x\<close>; a string times a non-positive number is
  empty, as is \<open>replicate\<close> of a truncated difference. \<^verbatim>\<open>_rgb_to_hex\<close> asserts the range
  of every channel first; the model has integer channels only.
\<close>

definition pad :: "string \<Rightarrow> string" where
  "pad x = replicate (2 - length x) CHR ''0'' @ x"

fun join :: "string \<Rightarrow> string list \<Rightarrow> string" where
  "join separator [] = []"
| "join separator [x] = x"
| "join separator (x # y # ys) = x @ separator @ join separator (y # ys)"

definition rgb_to_hex :: "int \<Rightarrow> int \<Rightarrow> int \<Rightarrow> string \<Rightarrow> error + string" where
  "rgb_to_hex red green blue separator =
     (if \<exists>colour \<in> set [red, green, blue]. \<not> (0 \<le> colour \<and> colour < 256) then Inl AssertionError
      else Inr (join separator (map (\<lambda>colour. pad (drop 2 (py_hex colour))) [red, green, blue])))"

text \<open>
  \<^verbatim>\<open>_render\<close> upper-cases the code, reads it back with \<^verbatim>\<open>int(colour, 16)\<close> and prints the
  three numbers \<^verbatim>\<open>hexint>>16\<close>, \<^verbatim>\<open>hexint>>8&0xFF\<close> and \<^verbatim>\<open>hexint&0xFF\<close> in the escape
  sequence; \<open>render_channels\<close> returns these three numbers. \<open>py_int16\<close> covers the strings
  that consist of hexadecimal digits of either case, which is what \<^verbatim>\<open>_rgb_to_hex\<close> produces;
  signs, prefixes, blanks and underscores, which Python would accept as well, are outside it
  and yield \<open>NotHex\<close>, as any other character does.
\<close>

definition upper_char :: "char \<Rightarrow> char" where
  "upper_char c = (let n = (of_char c :: nat) in if 97 \<le> n \<and> n \<le> 122 then char_of (n - 32) else c)"

definition upper :: "string \<Rightarrow> string" where
  "upper s = map upper_char s"

definition hex_value :: "char \<Rightarrow> nat option" where
  "hex_value c =
     (let n = (of_char c :: nat) in
      if 48 \<le> n \<and> n \<le> 57 then Some (n - 48)
      else if 97 \<le> n \<and> n \<le> 102 then Some (n - 87)
      else if 65 \<le> n \<and> n \<le> 70 then Some (n - 55)
      else None)"

fun int16_digits :: "int \<Rightarrow> string \<Rightarrow> error + int" where
  "int16_digits acc [] = Inr acc"
| "int16_digits acc (c # cs) =
     (case hex_value c of None \<Rightarrow> Inl NotHex | Some d \<Rightarrow> int16_digits (acc * 16 + int d) cs)"

definition py_int16 :: "string \<Rightarrow> error + int" where
  "py_int16 s = (if s = [] then Inl NotHex else int16_digits 0 s)"

definition render_channels :: "colour \<Rightarrow> error + int \<times> int \<times> int" where
  "render_channels colour =
     (case colour of (red, green, blue) \<Rightarrow>
        (case rgb_to_hex red green blue [] of
           Inl e \<Rightarrow> Inl e
         | Inr s \<Rightarrow>
            (case py_int16 (upper s) of
               Inl e \<Rightarrow> Inl e
             | Inr hexint \<Rightarrow> Inr (drop_bit 16 hexint, drop_bit 8 hexint AND 255, hexint AND 255))))"

text \<open>The two-digit code of one channel, as the claim about the round trip words it.\<close>

definition channel_digits :: "int \<Rightarrow> string" where
  "channel_digits c = [hex_digit (nat c div 16), hex_digit (nat c mod 16)]"

section \<open>Slot assignment\<close>

text \<open>
  Python lists are mutable objects that are shared by reference. \<^verbatim>\<open>assign_palette\<close> reads
  \<^verbatim>\<open>self.palette\<close>, copies it, sorts the copy into a new list in every round and pops from
  that list. To make the sharing explicit, the store is the sequence of all list objects
  and a reference is an index into it: \<open>alloc\<close> creates a new object (what
  \<^verbatim>\<open>list.copy()\<close> and \<^verbatim>\<open>sorted(...)\<close> do) and \<open>list_pop\<close> is \<^verbatim>\<open>list.pop()\<close>, which
  removes the last element of the object in place.
\<close>

type_synonym ref = nat
type_synonym store = "colour list list"

definition alloc :: "store \<Rightarrow> colour list \<Rightarrow> ref \<times> store" where
  "alloc h xs = (length h, h @ [xs])"

definition list_pop :: "store \<Rightarrow> ref \<Rightarrow> (error + colour) \<times> store" where
  "list_pop h r =
     (case h ! r of
        [] \<Rightarrow> (Inl IndexError, h)
      | x # xs \<Rightarrow> (Inr (last (x # xs)), h[r := butlast (x # xs)]))"

text \<open>
  The fields of a \<^verbatim>\<open>Theme\<close> object that \<^verbatim>\<open>assign_palette\<close> reads: the tone flag and the
  reference to the palette list.
\<close>

record theme =
  dark :: bool
  palette :: ref

text \<open>
  \<^verbatim>\<open>sorted(xs, key=f)\<close>: Python computes the key of every element first (an exception of
  the key function ends the call), then sorts by the keys alone with a stable sort, in
  ascending order. \<open>sort_key\<close> is the stable insertion sort of the library.
\<close>

fun keys_of :: "('a \<Rightarrow> error + int) \<Rightarrow> 'a list \<Rightarrow> error + int list" where
  "keys_of key [] = Inr []"
| "keys_of key (x # xs) =
     (case key x of
        Inl e \<Rightarrow> Inl e
      | Inr k \<Rightarrow> (case keys_of key xs of Inl e \<Rightarrow> Inl e | Inr ks \<Rightarrow> Inr (k # ks)))"

definition py_sorted :: "('a \<Rightarrow> error + int) \<Rightarrow> 'a list \<Rightarrow> error + 'a list" where
  "py_sorted key xs =
     (case keys_of key xs of
        Inl e \<Rightarrow> Inl e
      | Inr ks \<Rightarrow> Inr (map snd (sort_key fst (zip ks xs))))"

text \<open>The three dictionaries of \<^verbatim>\<open>assign_palette\<close>, entry by entry.\<close>

definition metrics :: "string \<rightharpoonup> (colour \<Rightarrow> error + int)" where
  "metrics = map_of
     [(''dark'', \<lambda>colour. Inr (- py_sum colour)),
      (''light'', \<lambda>colour. Inr (py_sum colour)),
      (''red'', \<lambda>colour. prominence colour [''red'']),
      (''green'', \<lambda>colour. prominence colour [''green'']),
      (''blue'', \<lambda>colour. prominence colour [''blue'']),
      (''cyan'', \<lambda>colour. prominence colour [''green'', ''blue'']),
      (''magenta'', \<lambda>colour. prominence colour [''red'', ''blue'']),
      (''yellow'', \<lambda>colour. prominence colour [''red'', ''green''])]"

definition order :: "string \<rightharpoonup> (string \<times> string) list" where
  "order = map_of
     [(''dark'',
        [(''color00'', ''dark''), (''color07'', ''light''), (''color01'', ''red''),
         (''color02'', ''green''), (''color04'', ''blue''), (''color03'', ''yellow''),
         (''color05'', ''magenta''), (''color06'', ''cyan''), (''color18'', ''dark''),
         (''color19'', ''dark''), (''color20'', ''dark''), (''color21'', ''dark''),
         (''color15'', ''dark''), (''color16'', ''dark''), (''color17'', ''dark''),
         (''color08'', ''dark'')]),
      (''light'',
        [(''color00'', ''light''), (''color07'', ''dark''), (''color01'', ''red''),
         (''color02'', ''green''), (''color04'', ''blue''), (''color03'', ''yellow''),
         (''color05'', ''magenta''), (''color06'', ''cyan''), (''color18'', ''light''),
         (''color19'', ''light''), (''color20'', ''light''), (''color21'', ''light''),
         (''color15'', ''light''), (''color16'', ''light''), (''color17'', ''light''),
         (''color08'', ''light'')])]"

text \<open>
  A value of \<^verbatim>\<open>reuse_palette\<close> is unpacked into the arguments of \<^verbatim>\<open>get_preference\<close>: a
  pair of a label list and a metric name gives two arguments (\<open>Best\<close>), a one-element list
  gives the label alone (\<open>Copy\<close>), and the metric name keeps its default \<^verbatim>\<open>None\<close>.
\<close>

datatype reuse = Best "string list" string | Copy string

definition reuse_palette :: "string \<rightharpoonup> reuse" where
  "reuse_palette = map_of
     [(''color08'',
        Best [''color01'', ''color02'', ''color03'', ''color04'', ''color05'', ''color06''] ''dark''),
      (''color18'',
        Best [''color01'', ''color02'', ''color03'', ''color04'', ''color05'', ''color06''] ''light''),
      (''color19'', Copy ''color04''),
      (''color20'', Copy ''color07''),
      (''color21'', Copy ''color00''),
      (''color15'', Copy ''color01''),
      (''color16'', Copy ''color06''),
      (''color17'', Copy ''color02'')]"

text \<open>
  \<^verbatim>\<open>get_preference\<close> reads the dictionary \<^verbatim>\<open>designations\<close> of the enclosing call; here
  it is an argument. \<open>lookup_all\<close> is the list comprehension over \<^verbatim>\<open>designations[option]\<close>.
\<close>

fun lookup_all :: "(string \<rightharpoonup> colour) \<Rightarrow> string list \<Rightarrow> error + colour list" where
  "lookup_all designations [] = Inr []"
| "lookup_all designations (option # options) =
     (case designations option of
        None \<Rightarrow> Inl (KeyError option)
      | Some c \<Rightarrow>
          (case lookup_all designations options of Inl e \<Rightarrow> Inl e | Inr cs \<Rightarrow> Inr (c # cs)))"

definition get_preference :: "(string \<rightharpoonup> colour) \<Rightarrow> reuse \<Rightarrow> error + colour" where
  "get_preference designations r =
     (case r of
        Copy options \<Rightarrow>
          (case designations options of None \<Rightarrow> Inl (KeyError options) | Some c \<Rightarrow> Inr c)
      | Best options metric_name \<Rightarrow>
          (case lookup_all designations options of
             Inl e \<Rightarrow> Inl e
           | Inr cs \<Rightarrow>
              (case metrics metric_name of
                 None \<Rightarrow> Inl (KeyError metric_name)
               | Some key \<Rightarrow>
                  (case py_sorted key cs of
                     Inl e \<Rightarrow> Inl e
                   | Inr [] \<Rightarrow> Inl IndexError
                   | Inr (c # _) \<Rightarrow> Inr c))))"

text \<open>
  The loop over \<^verbatim>\<open>order[tone]\<close>. Each round sorts the working list into a new list
  object, then either pops its last element or, when it is empty, consults
  \<^verbatim>\<open>reuse_palette\<close>. The result is the dictionary or the exception, together with the store.
\<close>

fun assign_loop ::
  "(string \<times> string) list \<Rightarrow> ref \<Rightarrow> (string \<rightharpoonup> colour) \<Rightarrow> store
     \<Rightarrow> (error + (string \<rightharpoonup> colour)) \<times> store" where
  "assign_loop [] working designations h = (Inr designations, h)"
| "assign_loop ((label, metric_name) # rest) working designations h =
     (case metrics metric_name of
        None \<Rightarrow> (Inl (KeyError metric_name), h)
      | Some key \<Rightarrow>
         (case py_sorted key (h ! working) of
            Inl e \<Rightarrow> (Inl e, h)
          | Inr ys \<Rightarrow>
             (case alloc h ys of (working', h') \<Rightarrow>
                if h' ! working' \<noteq> [] then
                  (case list_pop h' working' of
                     (Inl e, h'') \<Rightarrow> (Inl e, h'')
                   | (Inr c, h'') \<Rightarrow> assign_loop rest working' (designations(label \<mapsto> c)) h'')
                else
                  (case reuse_palette label of
                     None \<Rightarrow> (Inl (KeyError label), h')
                   | Some r \<Rightarrow>
                      (case get_preference designations r of
                         Inl e \<Rightarrow> (Inl e, h')
                       | Inr c \<Rightarrow> assign_loop rest working' (designations(label \<mapsto> c)) h')))))"

definition assign_palette :: "theme \<Rightarrow> store \<Rightarrow> (error + (string \<rightharpoonup> colour)) \<times> store" where
  "assign_palette self h =
     (case alloc h (h ! palette self) of (working, h') \<Rightarrow>
        let tone = (if dark self then ''dark'' else ''light'') in
        (case order tone of
           None \<Rightarrow> (Inl (KeyError tone), h')
         | Some slots \<Rightarrow> assign_loop slots working Map.empty h'))"

text \<open>The slot catalog of the specification.\<close>

definition catalog :: "string set" where
  "catalog = {''color00'', ''color01'', ''color02'', ''color03'', ''color04'', ''color05'',
     ''color06'', ''color07'', ''color08'', ''color15'', ''color16'', ''color17'', ''color18'',
     ''color19'', ''color20'', ''color21''}"

text \<open>
  The same loop on values, without the store: what the loop computes from the contents of
  the working list. It is proved equal to the first component of \<open>assign_loop\<close> below and
  carries the proofs about the assigned slots.
\<close>

fun assign_values ::
  "(string \<times> string) list \<Rightarrow> colour list \<Rightarrow> (string \<rightharpoonup> colour) \<Rightarrow> error + (string \<rightharpoonup> colour)" where
  "assign_values [] xs designations = Inr designations"
| "assign_values ((label, metric_name) # rest) xs designations =
     (case metrics metric_name of
        None \<Rightarrow> Inl (KeyError metric_name)
      | Some key \<Rightarrow>
         (case py_sorted key xs of
            Inl e \<Rightarrow> Inl e
          | Inr ys \<Rightarrow>
              if ys \<noteq> [] then assign_values rest (butlast ys) (designations(label \<mapsto> last ys))
              else
                (case reuse_palette label of
                   None \<Rightarrow> Inl (KeyError label)
                 | Some r \<Rightarrow>
                    (case get_preference designations r of
                       Inl e \<Rightarrow> Inl e
                     | Inr c \<Rightarrow> assign_values rest ys (designations(label \<mapsto> c))))))"

text \<open>
  Auxiliary notions for the proofs: a key function that never raises, and a slot list whose
  every slot either still finds a colour in a working list of length \<open>n\<close> or has a reuse
  entry that refers to labels assigned before it.
\<close>

definition total_key :: "('a \<Rightarrow> error + int) \<Rightarrow> bool" where
  "total_key key = (\<forall>x. \<exists>v. key x = Inr v)"

fun reuse_ok :: "string set \<Rightarrow> reuse option \<Rightarrow> bool" where
  "reuse_ok D None = False"
| "reuse_ok D (Some (Copy option)) = (option \<in> D)"
| "reuse_ok D (Some (Best options metric_name)) =
     (options \<noteq> [] \<and> set options \<subseteq> D \<and> metrics metric_name \<noteq> None)"

fun slots_ok :: "(string \<times> string) list \<Rightarrow> string set \<Rightarrow> nat \<Rightarrow> bool" where
  "slots_ok [] D n = True"
| "slots_ok ((label, metric_name) # rest) D n =
     (metrics metric_name \<noteq> None \<and> (0 < n \<or> reuse_ok D (reuse_palette label))
      \<and> slots_ok rest (insert label D) (n - 1))"

text \<open>The eight-colour scenario of the specification.\<close>

definition eight_colours :: "colour list" where
  "eight_colours = [(10, 10, 10), (250, 250, 250), (200, 30, 30), (30, 200, 30), (30, 30, 200),
     (200, 200, 30), (200, 30, 200), (30, 200, 200)]"




section \<open>Palette filter\<close>

text \<open>
  \<^verbatim>\<open>get_similarity\<close>, \<^verbatim>\<open>filter_by_similarity\<close> and \<^verbatim>\<open>filter_palette\<close> compute with Python
  floats. The model computes with real numbers instead: the thresholds that the search
  probes are dyadic fractions, which binary64 represents exactly for up to 53 rounds (the
  default is 50), whereas the two square roots, the quotients and the comparisons against
  the threshold are exact here and rounded in Python. The statements below that depend on
  a comparison are about inputs where the compared values are equal outright (similarity
  1 of a colour with itself, brightness distance 0) or apart by far more than the rounding.

  \<^verbatim>\<open>get_similarity(c1, c2)\<close>: one minus the Euclidean distance of the two colours over
  the distance from black to white.
\<close>

definition get_similarity :: "colour \<Rightarrow> colour \<Rightarrow> real" where
  "get_similarity c1 c2 =
     1 - sqrt (real_of_int (sum_list (map (\<lambda>(a, b). (a - b)\<^sup>2) (zip (channels c1) (channels c2)))))
         / sqrt (real_of_int (sum_list (map (\<lambda>_. 255\<^sup>2) [0..<3])))"

text \<open>
  \<^verbatim>\<open>filter_by_similarity\<close>: the first colour is the background and is always chosen; the
  loop goes through the other colours in order and skips a colour that is too similar to
  a colour chosen so far or too close to the background in brightness. The condition is
  the one of the source, \<^verbatim>\<open>chosen and any(...) or (...) > background_similarity_threshold\<close>.
\<close>

fun similarity_loop :: "real \<Rightarrow> real \<Rightarrow> colour \<Rightarrow> colour list \<Rightarrow> colour list \<Rightarrow> colour list" where
  "similarity_loop similarity_threshold background_similarity_threshold background chosen [] = chosen"
| "similarity_loop similarity_threshold background_similarity_threshold background chosen
       (colour # colours) =
     (if (chosen \<noteq> []
            \<and> list_ex (\<lambda>choice. get_similarity colour choice > similarity_threshold) chosen)
          \<or> (255 - real_of_int \<bar>py_sum colour - py_sum background\<bar> / 3) / 255
              > background_similarity_threshold
      then similarity_loop similarity_threshold background_similarity_threshold background
             chosen colours
      else similarity_loop similarity_threshold background_similarity_threshold background
             (chosen @ [colour]) colours)"

definition filter_by_similarity :: "colour list \<Rightarrow> real \<Rightarrow> colour list" where
  "filter_by_similarity colours similarity_threshold =
     (case colours of
        [] \<Rightarrow> []
      | background # rest \<Rightarrow>
          let chosen = [background];
              background_similarity_threshold =
                max (1 - (1 - similarity_threshold) * 2) similarity_threshold
          in similarity_loop similarity_threshold background_similarity_threshold background
               chosen rest)"

text \<open>
  The binary search of \<^verbatim>\<open>filter_palette\<close>. The loop either returns from within
  (\<open>Found\<close>) or runs out of rounds (\<open>Exhausted\<close>) and leaves the local \<^verbatim>\<open>candidates\<close> as
  the last round bound it; before the first round it is unbound (\<open>None\<close>), and so is \<^verbatim>\<open>n\<close>.
\<close>

datatype search_result = Found "colour list" | Exhausted "colour list option"

fun palette_search ::
  "colour list \<Rightarrow> nat \<Rightarrow> real \<Rightarrow> real \<Rightarrow> colour list option \<Rightarrow> search_result" where
  "palette_search colours 0 left right candidates = Exhausted candidates"
| "palette_search colours (Suc retries) left right candidates =
     (let middle = (left + right) / 2;
          candidates = filter_by_similarity colours middle;
          n = length candidates
      in if n < 16 then palette_search colours retries middle right (Some candidates)
         else if n > 16 then palette_search colours retries left middle (Some candidates)
         else Found candidates)"

text \<open>
  \<^verbatim>\<open>filter_palette(colours, max_retries)\<close>: sort by brightness in the direction of the tone,
  search, then raise on fewer than 8 colours or log the warning
  \<^verbatim>\<open>only found distinct {n} colours\<close> and return. The result carries the warnings logged.
\<close>

datatype warning = OnlyFoundDistinct nat

definition filter_palette ::
  "theme \<Rightarrow> colour list \<Rightarrow> nat \<Rightarrow> error + colour list \<times> warning list" where
  "filter_palette self colours max_retries =
     (let colours = sort_key (\<lambda>x. py_sum x * (if dark self then 1 else - 1)) colours
      in case palette_search colours max_retries 0 1 None of
           Found candidates \<Rightarrow> Inr (candidates, [])
         | Exhausted None \<Rightarrow> Inl UnboundLocal
         | Exhausted (Some candidates) \<Rightarrow>
             let n = length candidates
             in if n < 8 then Inl (TooFewColours n)
                else Inr (candidates, [OnlyFoundDistinct n]))"

text \<open>
  The rounds that the search goes through, in order: the threshold probed and the
  candidates found at it. The search is determined by its rounds (\<open>search_rounds\<close> below).
\<close>

fun rounds :: "colour list \<Rightarrow> nat \<Rightarrow> real \<Rightarrow> real \<Rightarrow> (real \<times> colour list) list" where
  "rounds colours 0 left right = []"
| "rounds colours (Suc retries) left right =
     (let middle = (left + right) / 2;
          candidates = filter_by_similarity colours middle;
          n = length candidates
      in (middle, candidates) #
         (if n < 16 then rounds colours retries middle right
          else if n > 16 then rounds colours retries left middle
          else []))"

text \<open>
  Names for the proofs: the condition under which the loop skips a colour, the squared
  Euclidean distance of two colours, and the candidates in the order \<^verbatim>\<open>filter_palette\<close>
  sorts them, whose first element is the anchor.
\<close>

definition rejects :: "real \<Rightarrow> real \<Rightarrow> colour \<Rightarrow> colour list \<Rightarrow> colour \<Rightarrow> bool" where
  "rejects t bt bg chosen c =
     ((chosen \<noteq> [] \<and> list_ex (\<lambda>choice. get_similarity c choice > t) chosen)
      \<or> (255 - real_of_int \<bar>py_sum c - py_sum bg\<bar> / 3) / 255 > bt)"

definition square_distance :: "colour \<Rightarrow> colour \<Rightarrow> int" where
  "square_distance c1 c2 =
     (case c1 of (r1, g1, b1) \<Rightarrow> case c2 of (r2, g2, b2) \<Rightarrow>
        (r1 - r2)\<^sup>2 + (g1 - g2)\<^sup>2 + (b1 - b2)\<^sup>2)"

definition tone_sorted :: "theme \<Rightarrow> colour list \<Rightarrow> colour list" where
  "tone_sorted self colours = sort_key (\<lambda>x. py_sum x * (if dark self then 1 else - 1)) colours"

section \<open>Properties of prominence\<close>

lemma prominence_cases:
  "prominence (r, g, b) hs =
     (if \<not> set hs \<subseteq> set hue_names then Inl BadHighlight
      else py_min (concat (map (\<lambda>d. map (\<lambda>u. d - u)
             ((if ''red'' \<in> set hs then [] else [r]) @
              (if ''green'' \<in> set hs then [] else [g]) @
              (if ''blue'' \<in> set hs then [] else [b])))
             ((if ''red'' \<in> set hs then [r] else []) @
              (if ''green'' \<in> set hs then [g] else []) @
              (if ''blue'' \<in> set hs then [b] else [])))))"
  by (auto simp: prominence_def channels_def hue_names_def Let_def)

lemma subset3_cases:
  assumes "A \<subseteq> {a, b, c}"
  shows "A = {} \<or> A = {a} \<or> A = {b} \<or> A = {c} \<or> A = {a, b} \<or> A = {a, c}
       \<or> A = {b, c} \<or> A = {a, b, c}"
  using assms by blast

lemma hue_set_cases:
  assumes "set hs \<subseteq> set hue_names" "card (set hs) \<in> {1, 2}"
  shows "set hs = {''red''} \<or> set hs = {''green''} \<or> set hs = {''blue''}
       \<or> set hs = {''red'', ''green''} \<or> set hs = {''red'', ''blue''}
       \<or> set hs = {''green'', ''blue''}"
proof -
  have sub: "set hs \<subseteq> {''red'', ''green'', ''blue''}"
    using assms(1) by (simp add: hue_names_def)
  have ne: "set hs \<noteq> {}"
  proof
    assume "set hs = {}"
    then have "card (set hs) = 0" by simp
    with assms(2) show False by simp
  qed
  have nall: "set hs \<noteq> {''red'', ''green'', ''blue''}"
  proof
    assume "set hs = {''red'', ''green'', ''blue''}"
    then have "card (set hs) = 3" by simp
    with assms(2) show False by simp
  qed
  from subset3_cases [OF sub] ne nall show ?thesis
    by argo
qed

lemma prominence_of_hue_set:
  assumes "set hues = {''red''} \<or> set hues = {''green''} \<or> set hues = {''blue''}
       \<or> set hues = {''red'', ''green''} \<or> set hues = {''red'', ''blue''}
       \<or> set hues = {''green'', ''blue''}"
  shows "prominence (r, g, b) hues = Inr (Min (hue_differences (r, g, b) (set hues)))"
  using assms unfolding prominence_cases hue_differences_def
  by (elim disjE) (simp_all add: hue_names_def channel_def insert_Diff_if min.commute)

text \<open>
  C6. For a colour \<open>c\<close> and a hue list naming one or two of red, green and blue,
  \<open>prominence c hues\<close> is the minimum of desired channel minus undesired channel over all
  pairs of a desired and an undesired channel; \<open>prominence (200,50,50) ["red"] = 150\<close>
  and \<open>prominence (50,50,200) ["red"] = -150\<close>.
\<close>

theorem prominence_min_difference:
  "(set hues \<subseteq> set hue_names \<and> card (set hues) \<in> {1, 2} \<longrightarrow>
      prominence c hues = Inr (Min (hue_differences c (set hues))))
   \<and> prominence (200, 50, 50) [''red''] = Inr 150
   \<and> prominence (50, 50, 200) [''red''] = Inr (- 150)"
proof (intro conjI impI)
  assume h: "set hues \<subseteq> set hue_names \<and> card (set hues) \<in> {1, 2}"
  obtain r g b where c: "c = (r, g, b)"
    by (cases c) auto
  from h have sub: "set hues \<subseteq> set hue_names" and crd: "card (set hues) \<in> {1, 2}"
    by blast+
  show "prominence c hues = Inr (Min (hue_differences c (set hues)))"
    unfolding c by (rule prominence_of_hue_set [OF hue_set_cases [OF sub crd]])
next
  show "prominence (200, 50, 50) [''red''] = Inr 150"
    by (simp add: prominence_cases hue_names_def)
next
  show "prominence (50, 50, 200) [''red''] = Inr (- 150)"
    by (simp add: prominence_cases hue_names_def)
qed

theorem prominence_min_difference_witness:
  "set [''green'', ''blue''] \<subseteq> set hue_names \<and> card (set [''green'', ''blue'']) \<in> {1, 2}
   \<and> prominence (10, 200, 180) [''green'', ''blue''] = Inr 170
   \<and> Min (hue_differences (10, 200, 180) (set [''green'', ''blue''])) = 170"
proof -
  have h: "set [''green'', ''blue''] \<subseteq> set hue_names \<and> card (set [''green'', ''blue'']) \<in> {1, 2}"
    by (simp add: hue_names_def)
  have p: "prominence (10, 200, 180) [''green'', ''blue''] = Inr 170"
    by (simp add: prominence_cases hue_names_def)
  from prominence_min_difference [of "[''green'', ''blue'']" "(10, 200, 180)"] h
  have "prominence (10, 200, 180) [''green'', ''blue'']
        = Inr (Min (hue_differences (10, 200, 180) (set [''green'', ''blue''])))"
    by blast
  with p h show ?thesis by simp
qed

section \<open>The hexadecimal round trip\<close>

lemma lt16_cases:
  "(d::nat) < 16 \<Longrightarrow> d = 0 \<or> d = 1 \<or> d = 2 \<or> d = 3 \<or> d = 4 \<or> d = 5 \<or> d = 6 \<or> d = 7
     \<or> d = 8 \<or> d = 9 \<or> d = 10 \<or> d = 11 \<or> d = 12 \<or> d = 13 \<or> d = 14 \<or> d = 15"
  by arith

lemma hex_value_digit: "d < 16 \<Longrightarrow> hex_value (hex_digit d) = Some d"
  by (drule lt16_cases) (elim disjE; simp add: hex_digit_def hex_value_def)

lemma hex_value_upper_digit: "d < 16 \<Longrightarrow> hex_value (upper_char (hex_digit d)) = Some d"
  by (drule lt16_cases) (elim disjE; simp add: hex_digit_def hex_value_def upper_char_def Let_def)

lemma hex_nat_small: "n < 256 \<Longrightarrow> hex_nat n = (if n < 16 then [hex_digit n] else [hex_digit (n div 16), hex_digit (n mod 16)])"
proof (cases "n < 16")
  case True
  then show ?thesis by (simp add: hex_nat.simps [of n])
next
  case False
  assume "n < 256"
  then have "n div 16 < 16" by simp
  then have "hex_nat (n div 16) = [hex_digit (n div 16)]"
    by (simp add: hex_nat.simps [of "n div 16"])
  with False show ?thesis by (simp add: hex_nat.simps [of n])
qed

lemma hex_digit_0: "hex_digit 0 = CHR ''0''"
  by (simp add: hex_digit_def)

lemma pad_channel:
  assumes "0 \<le> c" "c < 256"
  shows "pad (drop 2 (py_hex c)) = [hex_digit (nat c div 16), hex_digit (nat c mod 16)]"
proof -
  from assms have n: "nat c < 256" by simp
  from assms have "py_hex c = ''0x'' @ hex_nat (nat c)" by (simp add: py_hex_def)
  then have "drop 2 (py_hex c) = hex_nat (nat c)" by simp
  then show ?thesis
    using hex_nat_small [OF n] by (simp add: pad_def hex_digit_0)
qed

lemma and_255: "(k::int) AND 255 = k mod 256"
proof -
  have "(255::int) = mask 8" by (simp add: mask_eq_exp_minus_1)
  then show ?thesis by (simp only: flip: take_bit_eq_mask) (simp add: take_bit_eq_mod)
qed

lemma drop_bit_16: "drop_bit 16 (k::int) = k div 65536"
  by (simp add: drop_bit_eq_div)

lemma drop_bit_8: "drop_bit 8 (k::int) = k div 256"
  by (simp add: drop_bit_eq_div)

lemma rgb_to_hex_digits:
  assumes "0 \<le> r \<and> r < 256" "0 \<le> g \<and> g < 256" "0 \<le> b \<and> b < 256"
  shows "rgb_to_hex r g b [] = Inr (channel_digits r @ channel_digits g @ channel_digits b)"
  using assms by (simp add: rgb_to_hex_def pad_channel channel_digits_def)

lemma int16_channel_digits:
  assumes "0 \<le> c \<and> c < 256"
  shows "int16_digits acc (channel_digits c @ rest) = int16_digits (acc * 256 + c) rest"
    and "int16_digits acc (upper (channel_digits c) @ rest) = int16_digits (acc * 256 + c) rest"
proof -
  from assms have "nat c < 256" by linarith
  then have d: "nat c div 16 < 16" "nat c mod 16 < 16" by simp_all
  have e: "(acc * 16 + int (nat c div 16)) * 16 + int (nat c mod 16) = acc * 256 + c"
    using assms by (simp add: algebra_simps zdiv_int zmod_int)
  have "int16_digits acc (channel_digits c @ rest)
        = int16_digits ((acc * 16 + int (nat c div 16)) * 16 + int (nat c mod 16)) rest"
    by (simp only: channel_digits_def append.simps int16_digits.simps
          hex_value_digit [OF d(1)] hex_value_digit [OF d(2)] option.case)
  then show "int16_digits acc (channel_digits c @ rest) = int16_digits (acc * 256 + c) rest"
    by (simp only: e)
  have "int16_digits acc (upper (channel_digits c) @ rest)
        = int16_digits ((acc * 16 + int (nat c div 16)) * 16 + int (nat c mod 16)) rest"
    by (simp only: channel_digits_def upper_def list.map append.simps int16_digits.simps
          hex_value_upper_digit [OF d(1)] hex_value_upper_digit [OF d(2)] option.case)
  then show "int16_digits acc (upper (channel_digits c) @ rest) = int16_digits (acc * 256 + c) rest"
    by (simp only: e)
qed

lemma py_int16_rgb:
  assumes "0 \<le> r \<and> r < 256" "0 \<le> g \<and> g < 256" "0 \<le> b \<and> b < 256"
  shows "py_int16 (channel_digits r @ channel_digits g @ channel_digits b) = Inr (r * 65536 + g * 256 + b)"
    and "py_int16 (upper (channel_digits r @ channel_digits g @ channel_digits b)) = Inr (r * 65536 + g * 256 + b)"
proof -
  have ne: "channel_digits r @ channel_digits g @ channel_digits b \<noteq> []"
    by (simp add: channel_digits_def)
  have "int16_digits 0 (channel_digits r @ channel_digits g @ channel_digits b @ []) = Inr ((((0 * 256 + r) * 256 + g) * 256) + b)"
    by (simp only: int16_channel_digits(1) [OF assms(1)] int16_channel_digits(1) [OF assms(2)]
          int16_channel_digits(1) [OF assms(3)] int16_digits.simps)
  then show "py_int16 (channel_digits r @ channel_digits g @ channel_digits b) = Inr (r * 65536 + g * 256 + b)"
    using ne by (simp add: py_int16_def)
  have u: "upper (channel_digits r @ channel_digits g @ channel_digits b)
       = upper (channel_digits r) @ upper (channel_digits g) @ upper (channel_digits b) @ []"
    by (simp add: upper_def)
  have ne': "upper (channel_digits r @ channel_digits g @ channel_digits b) \<noteq> []"
    by (simp add: channel_digits_def upper_def)
  have "int16_digits 0 (upper (channel_digits r) @ upper (channel_digits g) @ upper (channel_digits b) @ []) = Inr ((((0 * 256 + r) * 256 + g) * 256) + b)"
    by (simp only: int16_channel_digits(2) [OF assms(1)] int16_channel_digits(2) [OF assms(2)]
          int16_channel_digits(2) [OF assms(3)] int16_digits.simps)
  then show "py_int16 (upper (channel_digits r @ channel_digits g @ channel_digits b)) = Inr (r * 65536 + g * 256 + b)"
    using ne' unfolding py_int16_def u by simp
qed

lemma div_256_high: "0 \<le> (y::int) \<and> y < 256 \<Longrightarrow> (x * 256 + y) div 256 = x"
  by simp

lemma mod_256_small: "0 \<le> (y::int) \<and> y < 256 \<Longrightarrow> (x * 256 + y) mod 256 = y"
  by simp

lemma decode_rgb:
  fixes r g b :: int
  assumes "0 \<le> r \<and> r < 256" "0 \<le> g \<and> g < 256" "0 \<le> b \<and> b < 256"
  shows "drop_bit 16 (r * 65536 + g * 256 + b) = r"
    and "drop_bit 8 (r * 65536 + g * 256 + b) AND 255 = g"
    and "(r * 65536 + g * 256 + b) AND 255 = b"
proof -
  have low: "0 \<le> g * 256 + b \<and> g * 256 + b < 65536"
    using assms(2,3) by linarith
  then have "(r * 65536 + (g * 256 + b)) div 65536 = r"
    by simp
  then show "drop_bit 16 (r * 65536 + g * 256 + b) = r"
    unfolding drop_bit_16 by (simp add: add.assoc)
  have split: "r * 65536 + g * 256 + b = (r * 256 + g) * 256 + b"
    by simp
  have "((r * 256 + g) * 256 + b) div 256 = r * 256 + g"
    by (rule div_256_high [OF assms(3)])
  moreover have "(r * 256 + g) mod 256 = g"
    by (rule mod_256_small [OF assms(2)])
  ultimately show "drop_bit 8 (r * 65536 + g * 256 + b) AND 255 = g"
    unfolding drop_bit_8 and_255 split by (simp only:)
  have "((r * 256 + g) * 256 + b) mod 256 = b"
    by (rule mod_256_small [OF assms(3)])
  then show "(r * 65536 + g * 256 + b) AND 255 = b"
    unfolding and_255 split by (simp only:)
qed

lemma channel_digits_valid:
  assumes "0 \<le> c \<and> c < 256"
  shows "list_all (\<lambda>c. hex_value c \<noteq> None) (channel_digits c)"
proof -
  from assms have "nat c < 256" by linarith
  then have d: "nat c div 16 < 16" "nat c mod 16 < 16" by simp_all
  show ?thesis
    by (simp add: channel_digits_def hex_value_digit [OF d(1)] hex_value_digit [OF d(2)])
qed

text \<open>
  C10. For integer channels \<open>r\<close>, \<open>g\<close>, \<open>b\<close> in \<open>[0, 256)\<close>, \<^verbatim>\<open>_rgb_to_hex\<close> with the
  empty separator returns a string of six hexadecimal digits, two per channel with a
  leading zero where needed; read back as a base-16 integer \<open>h\<close>, it gives the channels
  again as \<open>(h >> 16, (h >> 8) & 0xFF, h & 0xFF)\<close>, which is also what \<^verbatim>\<open>_render\<close>
  computes from the upper-cased code.
\<close>

theorem rgb_to_hex_roundtrip:
  assumes "0 \<le> r \<and> r < 256" "0 \<le> g \<and> g < 256" "0 \<le> b \<and> b < 256"
  shows "\<exists>s h. rgb_to_hex r g b [] = Inr s
           \<and> s = channel_digits r @ channel_digits g @ channel_digits b
           \<and> length s = 6
           \<and> list_all (\<lambda>c. hex_value c \<noteq> None) s
           \<and> py_int16 s = Inr h
           \<and> (drop_bit 16 h, drop_bit 8 h AND 255, h AND 255) = (r, g, b)
           \<and> render_channels (r, g, b) = Inr (r, g, b)"
proof -
  let ?s = "channel_digits r @ channel_digits g @ channel_digits b"
  let ?h = "r * 65536 + g * 256 + b"
  have 1: "rgb_to_hex r g b [] = Inr ?s"
    by (rule rgb_to_hex_digits [OF assms])
  have 2: "length ?s = 6"
    by (simp add: channel_digits_def)
  have 3: "list_all (\<lambda>c. hex_value c \<noteq> None) ?s"
    by (simp only: list_all_append channel_digits_valid [OF assms(1)]
          channel_digits_valid [OF assms(2)] channel_digits_valid [OF assms(3)])
  have 4: "py_int16 ?s = Inr ?h"
    by (rule py_int16_rgb(1) [OF assms])
  have 5: "(drop_bit 16 ?h, drop_bit 8 ?h AND 255, ?h AND 255) = (r, g, b)"
    by (simp only: decode_rgb [OF assms])
  have 6: "render_channels (r, g, b) = Inr (r, g, b)"
    by (simp only: render_channels_def prod.case 1 sum.case py_int16_rgb(2) [OF assms]
          decode_rgb [OF assms])
  from 1 2 3 4 5 6 show ?thesis by blast
qed

theorem rgb_to_hex_roundtrip_witness:
  "rgb_to_hex 255 0 17 [] = Inr ''ff0011'' \<and> py_int16 ''ff0011'' = Inr 16711697
   \<and> (drop_bit 16 (16711697::int), drop_bit 8 (16711697::int) AND 255, (16711697::int) AND 255) = (255, 0, 17)
   \<and> render_channels (255, 0, 17) = Inr (255, 0, 17)"
proof -
  have r: "(0::int) \<le> 255 \<and> (255::int) < 256" and g: "(0::int) \<le> 0 \<and> (0::int) < 256"
    and b: "(0::int) \<le> 17 \<and> (17::int) < 256"
    by simp_all
  from rgb_to_hex_roundtrip [OF r g b] obtain s h where
    s: "rgb_to_hex 255 0 17 [] = Inr s" "s = channel_digits 255 @ channel_digits 0 @ channel_digits 17"
      "py_int16 s = Inr h"
      "(drop_bit 16 h, drop_bit 8 h AND 255, h AND 255) = (255, 0, 17)"
      "render_channels (255, 0, 17) = Inr (255, 0, 17)"
    by blast
  have s': "s = ''ff0011''"
    unfolding s(2) by (simp add: channel_digits_def hex_digit_def)
  have h: "py_int16 ''ff0011'' = Inr 16711697"
    by (simp add: py_int16_def hex_value_def)
  from s(3) s' h have "h = 16711697" by simp
  with s s' h show ?thesis by simp
qed

section \<open>Properties of the slot assignment\<close>

lemma list_pop_nonempty:
  "h ! r \<noteq> [] \<Longrightarrow> list_pop h r = (Inr (last (h ! r)), h[r := butlast (h ! r)])"
  by (cases "h ! r") (simp_all add: list_pop_def)

lemma assign_loop_values:
  "fst (assign_loop slots working d h) = assign_values slots (h ! working) d"
proof (induction slots arbitrary: working d h)
  case Nil
  show ?case by simp
next
  case (Cons slot rest)
  obtain label metric_name where slot: "slot = (label, metric_name)"
    by (cases slot) auto
  show ?case
  proof (cases "metrics metric_name")
    case None
    then show ?thesis by (simp add: slot)
  next
    case (Some key)
    show ?thesis
    proof (cases "py_sorted key (h ! working)")
      case (Inl e)
      with Some show ?thesis by (simp add: slot)
    next
      case (Inr ys)
      show ?thesis
      proof (cases "ys = []")
        case True
        show ?thesis
        proof (cases "reuse_palette label")
          case None
          with Some Inr True show ?thesis by (simp add: slot alloc_def)
        next
          case reuse: (Some r)
          show ?thesis
          proof (cases "get_preference d r")
            case (Inl e)
            with Some Inr True reuse show ?thesis by (simp add: slot alloc_def)
          next
            case pref: (Inr c)
            have "fst (assign_loop rest (length h) (d(label \<mapsto> c)) (h @ [ys]))
                  = assign_values rest ((h @ [ys]) ! length h) (d(label \<mapsto> c))"
              by (rule Cons.IH)
            with Some Inr True reuse pref show ?thesis by (simp add: slot alloc_def)
          qed
        qed
      next
        case False
        then have "list_pop (h @ [ys]) (length h) = (Inr (last ys), (h @ [ys])[length h := butlast ys])"
          using list_pop_nonempty [of "h @ [ys]" "length h"] by simp
        moreover have "fst (assign_loop rest (length h) (d(label \<mapsto> last ys))
                         ((h @ [ys])[length h := butlast ys]))
                  = assign_values rest (((h @ [ys])[length h := butlast ys]) ! length h)
                      (d(label \<mapsto> last ys))"
          by (rule Cons.IH)
        ultimately show ?thesis
          using Some Inr False by (simp add: slot alloc_def)
      qed
    qed
  qed
qed

lemma assign_loop_frame:
  "r < length h \<Longrightarrow> snd (assign_loop slots working d h) ! r = h ! r"
proof (induction slots arbitrary: working d h)
  case Nil
  show ?case by simp
next
  case (Cons slot rest)
  obtain label metric_name where slot: "slot = (label, metric_name)"
    by (cases slot) auto
  have r: "r < length h" by fact
  show ?case
  proof (cases "metrics metric_name")
    case None
    then show ?thesis by (simp add: slot)
  next
    case (Some key)
    show ?thesis
    proof (cases "py_sorted key (h ! working)")
      case (Inl e)
      with Some show ?thesis by (simp add: slot)
    next
      case (Inr ys)
      have keep: "(h @ [ys]) ! r = h ! r"
        using r by (simp add: nth_append)
      show ?thesis
      proof (cases "ys = []")
        case True
        show ?thesis
        proof (cases "reuse_palette label")
          case None
          with Some Inr True keep show ?thesis by (simp add: slot alloc_def)
        next
          case reuse: (Some u)
          show ?thesis
          proof (cases "get_preference d u")
            case (Inl e)
            with Some Inr True reuse keep show ?thesis by (simp add: slot alloc_def)
          next
            case pref: (Inr c)
            have "snd (assign_loop rest (length h) (d(label \<mapsto> c)) (h @ [ys])) ! r = (h @ [ys]) ! r"
              using r by (intro Cons.IH) simp
            with Some Inr True reuse pref keep show ?thesis by (simp add: slot alloc_def)
          qed
        qed
      next
        case False
        then have pop: "list_pop (h @ [ys]) (length h) = (Inr (last ys), (h @ [ys])[length h := butlast ys])"
          using list_pop_nonempty [of "h @ [ys]" "length h"] by simp
        have "snd (assign_loop rest (length h) (d(label \<mapsto> last ys)) ((h @ [ys])[length h := butlast ys])) ! r
              = ((h @ [ys])[length h := butlast ys]) ! r"
          using r by (intro Cons.IH) simp
        moreover have "((h @ [ys])[length h := butlast ys]) ! r = h ! r"
          using r by (simp add: nth_append)
        ultimately show ?thesis
          using Some Inr False pop by (simp add: slot alloc_def)
      qed
    qed
  qed
qed

lemma prominence_total:
  assumes "set hs = {''red''} \<or> set hs = {''green''} \<or> set hs = {''blue''}
     \<or> set hs = {''red'', ''green''} \<or> set hs = {''red'', ''blue''}
     \<or> set hs = {''green'', ''blue''}"
  shows "\<exists>v. prominence c hs = Inr v"
proof -
  obtain r g b where c: "c = (r, g, b)"
    by (cases c) auto
  show ?thesis
    unfolding c prominence_of_hue_set [OF assms] by (rule exI) (rule refl)
qed

lemma total_prominence:
  "total_key (\<lambda>colour. prominence colour [''red''])"
  "total_key (\<lambda>colour. prominence colour [''green''])"
  "total_key (\<lambda>colour. prominence colour [''blue''])"
  "total_key (\<lambda>colour. prominence colour [''green'', ''blue''])"
  "total_key (\<lambda>colour. prominence colour [''red'', ''blue''])"
  "total_key (\<lambda>colour. prominence colour [''red'', ''green''])"
  unfolding total_key_def
  by (intro allI prominence_total; simp add: insert_commute)+

lemma total_brightness:
  "total_key (\<lambda>colour. Inr (- py_sum colour))"
  "total_key (\<lambda>colour. Inr (py_sum colour))"
  unfolding total_key_def by blast+

lemma metrics_total:
  assumes "metrics m = Some key"
  shows "total_key key"
proof -
  from assms have "(m, key) \<in> set
     [(''dark'', \<lambda>colour. Inr (- py_sum colour)),
      (''light'', \<lambda>colour. Inr (py_sum colour)),
      (''red'', \<lambda>colour. prominence colour [''red'']),
      (''green'', \<lambda>colour. prominence colour [''green'']),
      (''blue'', \<lambda>colour. prominence colour [''blue'']),
      (''cyan'', \<lambda>colour. prominence colour [''green'', ''blue'']),
      (''magenta'', \<lambda>colour. prominence colour [''red'', ''blue'']),
      (''yellow'', \<lambda>colour. prominence colour [''red'', ''green''])]"
    unfolding metrics_def by (rule map_of_SomeD)
  then have "key = (\<lambda>colour. Inr (- py_sum colour)) \<or> key = (\<lambda>colour. Inr (py_sum colour))
       \<or> key = (\<lambda>colour. prominence colour [''red''])
       \<or> key = (\<lambda>colour. prominence colour [''green''])
       \<or> key = (\<lambda>colour. prominence colour [''blue''])
       \<or> key = (\<lambda>colour. prominence colour [''green'', ''blue''])
       \<or> key = (\<lambda>colour. prominence colour [''red'', ''blue''])
       \<or> key = (\<lambda>colour. prominence colour [''red'', ''green''])"
    unfolding set_simps insert_iff empty_iff prod.inject by blast
  then show ?thesis
    using total_prominence total_brightness by (elim disjE) (simp_all only:)
qed

lemma metrics_names:
  "metrics ''dark'' \<noteq> None" "metrics ''light'' \<noteq> None" "metrics ''red'' \<noteq> None"
  "metrics ''green'' \<noteq> None" "metrics ''blue'' \<noteq> None" "metrics ''cyan'' \<noteq> None"
  "metrics ''magenta'' \<noteq> None" "metrics ''yellow'' \<noteq> None"
  by (simp_all add: metrics_def)

lemma keys_of_total:
  "total_key key \<Longrightarrow> \<exists>ks. keys_of key xs = Inr ks \<and> length ks = length xs"
proof (induction xs)
  case Nil
  show ?case by simp
next
  case (Cons x xs)
  then obtain ks where ks: "keys_of key xs = Inr ks" "length ks = length xs"
    by blast
  from Cons.prems obtain v where "key x = Inr v"
    unfolding total_key_def by blast
  with ks show ?case by simp
qed

lemma keys_of_Inr:
  "keys_of key xs = Inr ks \<Longrightarrow> length ks = length xs \<and> map key xs = map Inr ks"
proof (induction xs arbitrary: ks)
  case Nil
  then show ?case by simp
next
  case (Cons x xs)
  then show ?case
    by (auto split: sum.splits)
qed

lemma py_sorted_Inr:
  assumes "py_sorted key xs = Inr ys"
  shows "mset ys = mset xs" and "length ys = length xs" and "set ys = set xs"
proof -
  from assms obtain ks where ks: "keys_of key xs = Inr ks"
    and ys: "ys = map snd (sort_key fst (zip ks xs))"
    by (auto simp: py_sorted_def split: sum.splits)
  from keys_of_Inr [OF ks] have len: "length ks = length xs" by simp
  have "mset ys = mset (map snd (zip ks xs))"
    unfolding ys by simp
  with len show m: "mset ys = mset xs"
    by simp
  from m show "length ys = length xs" by (rule mset_eq_length)
  from m show "set ys = set xs" by (rule mset_eq_setD)
qed

lemma py_sorted_total:
  "total_key key \<Longrightarrow> \<exists>ys. py_sorted key xs = Inr ys \<and> length ys = length xs"
proof -
  assume "total_key key"
  from keys_of_total [OF this, of xs] obtain ks where "keys_of key xs = Inr ks"
    by blast
  then have "py_sorted key xs = Inr (map snd (sort_key fst (zip ks xs)))"
    by (simp add: py_sorted_def)
  with py_sorted_Inr(2) show ?thesis by blast
qed

lemma assign_values_pop:
  assumes "metrics metric_name = Some key" "py_sorted key xs = Inr ys" "ys \<noteq> []"
  shows "assign_values ((label, metric_name) # rest) xs d
         = assign_values rest (butlast ys) (d(label \<mapsto> last ys))"
  using assms by simp

lemma assign_values_reuse:
  assumes "metrics metric_name = Some key" "py_sorted key xs = Inr []"
    "reuse_palette label = Some r" "get_preference d r = Inr c"
  shows "assign_values ((label, metric_name) # rest) xs d
         = assign_values rest [] (d(label \<mapsto> c))"
  using assms by simp

lemma assign_values_dom:
  "assign_values slots xs d = Inr d' \<Longrightarrow> dom d' = dom d \<union> fst ` set slots"
proof (induction slots arbitrary: xs d)
  case Nil
  then show ?case by simp
next
  case (Cons slot rest)
  obtain label metric_name where slot: "slot = (label, metric_name)"
    by (cases slot) auto
  from Cons.prems obtain key ys where key: "metrics metric_name = Some key"
    and ys: "py_sorted key xs = Inr ys"
    by (auto simp: slot split: option.splits sum.splits)
  show ?case
  proof (cases "ys = []")
    case False
    from Cons.prems have "assign_values rest (butlast ys) (d(label \<mapsto> last ys)) = Inr d'"
      unfolding slot assign_values_pop [OF key ys False] .
    from Cons.IH [OF this] have "dom d' = dom (d(label \<mapsto> last ys)) \<union> fst ` set rest" .
    then show ?thesis by (simp add: slot)
  next
    case True
    with Cons.prems key ys obtain r c where r: "reuse_palette label = Some r"
      and c: "get_preference d r = Inr c"
      by (auto simp: slot split: option.splits sum.splits)
    from ys True have ys': "py_sorted key xs = Inr []" by simp
    from Cons.prems have "assign_values rest [] (d(label \<mapsto> c)) = Inr d'"
      unfolding slot assign_values_reuse [OF key ys' r c] .
    from Cons.IH [OF this] have "dom d' = dom (d(label \<mapsto> c)) \<union> fst ` set rest" .
    then show ?thesis by (simp add: slot)
  qed
qed

lemma lookup_all_ok:
  "set options \<subseteq> dom d \<Longrightarrow> \<exists>cs. lookup_all d options = Inr cs \<and> length cs = length options"
proof (induction options)
  case Nil
  show ?case by simp
next
  case (Cons a options)
  then obtain cs where "lookup_all d options = Inr cs" "length cs = length options"
    by auto
  moreover from Cons.prems obtain c where "d a = Some c" by auto
  ultimately show ?case by simp
qed

lemma get_preference_ok:
  assumes "reuse_ok (dom d) (Some r)"
  shows "\<exists>c. get_preference d r = Inr c"
proof (cases r)
  case (Copy option)
  with assms have "option \<in> dom d" by simp
  then obtain c where "d option = Some c" by blast
  with Copy show ?thesis by (simp add: get_preference_def del: split_paired_Ex)
next
  case (Best options metric_name)
  with assms have ne: "options \<noteq> []" and sub: "set options \<subseteq> dom d"
    and "metrics metric_name \<noteq> None"
    by simp_all
  then obtain key where key: "metrics metric_name = Some key" by auto
  from lookup_all_ok [OF sub] obtain cs where cs: "lookup_all d options = Inr cs"
    "length cs = length options"
    by blast
  from py_sorted_total [OF metrics_total [OF key], of cs] obtain ys where
    ys: "py_sorted key cs = Inr ys" "length ys = length cs"
    by blast
  with cs ne obtain y ys' where "ys = y # ys'"
    by (cases ys) auto
  with Best key cs ys show ?thesis by (simp add: get_preference_def del: split_paired_Ex)
qed

lemma assign_values_ok:
  "slots_ok slots (dom d) (length xs) \<Longrightarrow> \<exists>d'. assign_values slots xs d = Inr d'"
proof (induction slots arbitrary: xs d)
  case Nil
  show ?case by simp
next
  case (Cons slot rest)
  obtain label metric_name where slot: "slot = (label, metric_name)"
    by (cases slot) auto
  from Cons.prems obtain key where key: "metrics metric_name = Some key"
    by (auto simp: slot)
  from Cons.prems have here: "0 < length xs \<or> reuse_ok (dom d) (reuse_palette label)"
    and later: "slots_ok rest (insert label (dom d)) (length xs - 1)"
    by (simp_all add: slot)
  from py_sorted_total [OF metrics_total [OF key], of xs] obtain ys where
    ys: "py_sorted key xs = Inr ys" "length ys = length xs"
    by blast
  show ?case
  proof (cases "ys = []")
    case False
    have "slots_ok rest (dom (d(label \<mapsto> last ys))) (length (butlast ys))"
      using later ys(2) by simp
    from Cons.IH [OF this] show ?thesis
      unfolding slot assign_values_pop [OF key ys(1) False] .
  next
    case True
    with ys(2) here have "reuse_ok (dom d) (reuse_palette label)" by simp
    then obtain r where r: "reuse_palette label = Some r" "reuse_ok (dom d) (Some r)"
      by (cases "reuse_palette label") auto
    from get_preference_ok [OF r(2)] obtain c where c: "get_preference d r = Inr c"
      by blast
    from ys(1) True have ys': "py_sorted key xs = Inr []" by simp
    have "slots_ok rest (dom (d(label \<mapsto> c))) (length ([]::colour list))"
      using later ys(2) True by simp
    from Cons.IH [OF this] show ?thesis
      unfolding slot assign_values_reuse [OF key ys' r(1) c] .
  qed
qed

lemma assign_palette_values:
  "fst (assign_palette self h) =
     (case order (if dark self then ''dark'' else ''light'') of
        None \<Rightarrow> Inl (KeyError (if dark self then ''dark'' else ''light''))
      | Some slots \<Rightarrow> assign_values slots (h ! palette self) Map.empty)"
proof -
  have "fst (assign_loop slots (length h) Map.empty (h @ [h ! palette self]))
        = assign_values slots (h ! palette self) Map.empty" for slots
    using assign_loop_values [of slots "length h" Map.empty "h @ [h ! palette self]"] by simp
  then show ?thesis
    by (simp add: assign_palette_def alloc_def Let_def split: option.splits)
qed

lemma order_dark_ok:
  assumes "8 \<le> n" "order ''dark'' = Some slots"
  shows "slots_ok slots {} n"
  using assms by (auto simp: order_def metrics_names reuse_palette_def)

lemma order_light_ok:
  assumes "8 \<le> n" "order ''light'' = Some slots"
  shows "slots_ok slots {} n"
  using assms by (auto simp: order_def metrics_names reuse_palette_def)

lemma order_labels:
  assumes "order tone = Some slots"
  shows "fst ` set slots = catalog"
  using assms by (auto simp: order_def catalog_def split: if_splits)

lemma assign_palette_ok:
  assumes "8 \<le> length (h ! palette self)"
  shows "\<exists>d. fst (assign_palette self h) = Inr d"
proof -
  let ?tone = "if dark self then ''dark'' else ''light''"
  obtain slots where slots: "order ?tone = Some slots"
    by (cases "dark self") (simp_all add: order_def)
  have "slots_ok slots {} (length (h ! palette self))"
    using order_dark_ok [OF assms] order_light_ok [OF assms] slots
    by (cases "dark self") simp_all
  then have "slots_ok slots (dom (Map.empty :: string \<rightharpoonup> colour)) (length (h ! palette self))"
    by simp
  from assign_values_ok [OF this] show ?thesis
    by (simp add: assign_palette_values slots)
qed

lemma assign_palette_dom:
  assumes "fst (assign_palette self h) = Inr d"
  shows "dom d = catalog"
proof -
  let ?tone = "if dark self then ''dark'' else ''light''"
  from assms obtain slots where slots: "order ?tone = Some slots"
    and d: "assign_values slots (h ! palette self) Map.empty = Inr d"
    by (auto simp: assign_palette_values split: option.splits)
  from assign_values_dom [OF d] order_labels [OF slots] show ?thesis
    by simp
qed

lemma assign_values_runs_out:
  assumes "length xs < length slots"
    and "\<forall>slot \<in> set (take (Suc (length xs)) slots). metrics (snd slot) \<noteq> None"
    and "reuse_palette (fst (slots ! length xs)) = None"
  shows "assign_values slots xs d = Inl (KeyError (fst (slots ! length xs)))"
  using assms
proof (induction slots arbitrary: xs d)
  case Nil
  then show ?case by simp
next
  case (Cons slot rest)
  obtain label metric_name where slot: "slot = (label, metric_name)"
    by (cases slot) auto
  from Cons.prems(2) obtain key where key: "metrics metric_name = Some key"
    by (auto simp: slot)
  from py_sorted_total [OF metrics_total [OF key], of xs] obtain ys where
    ys: "py_sorted key xs = Inr ys" "length ys = length xs"
    by blast
  show ?case
  proof (cases "ys = []")
    case True
    with ys(2) have xs: "xs = []" by simp
    with Cons.prems(3) have "reuse_palette label = None"
      by (simp add: slot)
    with key ys True xs show ?thesis
      by (simp add: slot)
  next
    case False
    with ys(2) obtain n where n: "length xs = Suc n"
      by (cases xs) auto
    have len: "length (butlast ys) = n"
      using ys(2) n by simp
    have 1: "length (butlast ys) < length rest"
      using Cons.prems(1) len n by simp
    have 2: "\<forall>slot \<in> set (take (Suc (length (butlast ys))) rest). metrics (snd slot) \<noteq> None"
      using Cons.prems(2) len n by simp
    have 3: "reuse_palette (fst (rest ! length (butlast ys))) = None"
      using Cons.prems(3) len n by simp
    have "assign_values rest (butlast ys) (d(label \<mapsto> last ys))
          = Inl (KeyError (fst (rest ! length (butlast ys))))"
      using 1 2 3 by (rule Cons.IH)
    moreover have "(slot # rest) ! length xs = rest ! length (butlast ys)"
      using len n by simp
    ultimately show ?thesis
      unfolding slot assign_values_pop [OF key ys(1) False] by (simp only: slot)
  qed
qed

lemma lt8_cases:
  "(len::nat) < 8 \<Longrightarrow> len \<in> {0, 1, 2, 3, 4, 5, 6, 7}"
  by auto

lemma order_runs_out:
  assumes "order tone = Some slots" "n < 8"
  shows "n < length slots"
    and "\<forall>slot \<in> set (take (Suc n) slots). metrics (snd slot) \<noteq> None"
    and "reuse_palette (fst (slots ! n)) = None"
proof -
  from assms(1) have slots: "tone = ''dark'' \<and> slots = the (order ''dark'')
      \<or> tone = ''light'' \<and> slots = the (order ''light'')"
    by (auto simp: order_def split: if_splits)
  from slots show "n < length slots"
    using assms(2) by (elim disjE conjE) (simp_all add: order_def)
  from slots have "\<forall>slot \<in> set slots. metrics (snd slot) \<noteq> None"
    by (elim disjE conjE) (simp_all add: order_def metrics_def)
  then show "\<forall>slot \<in> set (take (Suc n) slots). metrics (snd slot) \<noteq> None"
    by (meson in_set_takeD)
  from lt8_cases [OF assms(2)] slots show "reuse_palette (fst (slots ! n)) = None"
    unfolding insert_iff empty_iff
    by (elim disjE conjE) (simp_all add: order_def reuse_palette_def)
qed

lemma assign_palette_runs_out:
  assumes "length (h ! palette self) < 8"
  shows "\<exists>k. fst (assign_palette self h) = Inl (KeyError k)"
proof -
  let ?tone = "if dark self then ''dark'' else ''light''"
  obtain slots where slots: "order ?tone = Some slots"
    by (cases "dark self") (simp_all add: order_def)
  note ro = order_runs_out [OF slots assms]
  have "assign_values slots (h ! palette self) Map.empty
        = Inl (KeyError (fst (slots ! length (h ! palette self))))"
    using ro by (rule assign_values_runs_out)
  then show ?thesis
    by (simp add: assign_palette_values slots)
qed

text \<open>
  C1 (as amended). For a palette of at least eight colours and either tone,
  \<^verbatim>\<open>assign_palette\<close> returns a dictionary whose keys are exactly the slot catalog; for a
  palette of any size, whenever it returns a dictionary at all, the keys are exactly the
  catalog: it never returns a partial assignment; and for a palette of fewer than eight
  colours it raises \<^verbatim>\<open>KeyError\<close>.
\<close>

theorem assign_palette_complete:
  "(8 \<le> length (h ! palette self) \<longrightarrow>
      (\<exists>d. fst (assign_palette self h) = Inr d \<and> dom d = catalog))
   \<and> (\<forall>d. fst (assign_palette self h) = Inr d \<longrightarrow> dom d = catalog)
   \<and> (length (h ! palette self) < 8 \<longrightarrow>
        (\<exists>k. fst (assign_palette self h) = Inl (KeyError k)))"
proof (intro conjI impI allI)
  assume "8 \<le> length (h ! palette self)"
  from assign_palette_ok [OF this] obtain d where d: "fst (assign_palette self h) = Inr d"
    by blast
  with assign_palette_dom [OF d] show "\<exists>d. fst (assign_palette self h) = Inr d \<and> dom d = catalog"
    by blast
next
  fix d
  assume "fst (assign_palette self h) = Inr d"
  then show "dom d = catalog"
    by (rule assign_palette_dom)
next
  assume "length (h ! palette self) < 8"
  then show "\<exists>k. fst (assign_palette self h) = Inl (KeyError k)"
    by (rule assign_palette_runs_out)
qed

theorem assign_palette_complete_witness:
  "8 \<le> length ([eight_colours] ! palette \<lparr>dark = True, palette = 0\<rparr>)
   \<and> (\<exists>d. fst (assign_palette \<lparr>dark = True, palette = 0\<rparr> [eight_colours]) = Inr d \<and> dom d = catalog)
   \<and> length ([[(9, 9, 9), (7, 7, 7)]] ! palette \<lparr>dark = False, palette = 0\<rparr>) < 8
   \<and> (\<exists>k. fst (assign_palette \<lparr>dark = False, palette = 0\<rparr> [[(9, 9, 9), (7, 7, 7)]])
          = Inl (KeyError k))"
proof -
  have n: "8 \<le> length ([eight_colours] ! palette \<lparr>dark = True, palette = 0\<rparr>)"
    by (simp add: eight_colours_def)
  have m: "length ([[(9, 9, 9), (7, 7, 7)]] ! palette \<lparr>dark = False, palette = 0\<rparr>) < 8"
    by simp
  from n assign_palette_complete [of "[eight_colours]" "\<lparr>dark = True, palette = 0\<rparr>"]
  have 1: "\<exists>d. fst (assign_palette \<lparr>dark = True, palette = 0\<rparr> [eight_colours]) = Inr d
            \<and> dom d = catalog"
    by blast
  from m assign_palette_complete [of "[[(9, 9, 9), (7, 7, 7)]]" "\<lparr>dark = False, palette = 0\<rparr>"]
  have 2: "\<exists>k. fst (assign_palette \<lparr>dark = False, palette = 0\<rparr> [[(9, 9, 9), (7, 7, 7)]])
            = Inl (KeyError k)"
    by blast
  from n m 1 2 show ?thesis by blast
qed

text \<open>
  C1 as stated fails: a palette of size one is consumed by \<^verbatim>\<open>color00\<close>, and the next slot,
  \<^verbatim>\<open>color07\<close>, has no entry in \<^verbatim>\<open>reuse_palette\<close>, so the lookup raises \<^verbatim>\<open>KeyError\<close>.
\<close>

theorem assign_palette_single_colour_fails:
  "1 \<le> length [(0, 0, 0) :: colour]
   \<and> fst (assign_palette \<lparr>dark = True, palette = 0\<rparr> [[(0, 0, 0)]]) = Inl (KeyError ''color07'')"
  by (simp add: assign_palette_values order_def metrics_def py_sorted_def py_sum_def reuse_palette_def)

text \<open>
  C9. \<^verbatim>\<open>assign_palette\<close> does not modify the stored palette: after the call the list
  object that \<^verbatim>\<open>self.palette\<close> refers to has the contents it had before, as has every other
  list object that existed before the call, whether the call returns or raises. The method
  assigns to no field of the object.
\<close>

theorem assign_palette_preserves_store:
  "(palette self < length h \<longrightarrow> snd (assign_palette self h) ! palette self = h ! palette self)
   \<and> (r < length h \<longrightarrow> snd (assign_palette self h) ! r = h ! r)"
proof -
  have keep: "snd (assign_palette self h) ! r = h ! r" if r: "r < length h" for r
  proof (cases "order (if dark self then ''dark'' else ''light'')")
    case None
    with r show ?thesis
      by (simp add: assign_palette_def alloc_def Let_def nth_append)
  next
    case (Some slots)
    have "snd (assign_loop slots (length h) Map.empty (h @ [h ! palette self])) ! r
          = (h @ [h ! palette self]) ! r"
      using r by (intro assign_loop_frame) simp
    with Some r show ?thesis
      by (simp add: assign_palette_def alloc_def Let_def nth_append)
  qed
  then show ?thesis by blast
qed

theorem assign_palette_preserves_store_witness:
  "palette \<lparr>dark = True, palette = 0\<rparr> < length [eight_colours]
   \<and> snd (assign_palette \<lparr>dark = True, palette = 0\<rparr> [eight_colours])
        ! palette \<lparr>dark = True, palette = 0\<rparr> = eight_colours"
  using assign_palette_preserves_store [of "\<lparr>dark = True, palette = 0\<rparr>" "[eight_colours]" 0]
  by simp



















section \<open>Properties of the palette filter\<close>

lemma norm_const: "sqrt (real_of_int (sum_list (map (\<lambda>_. 255\<^sup>2) [0..<3]))) = sqrt 195075"
  by (simp add: upt_rec numeral_eq_Suc)

lemma square_sum: "sum_list (map (\<lambda>(a, b). (a - b)\<^sup>2) (zip (channels (r1, g1, b1)) (channels (r2, g2, b2))))
   = (r1 - r2)\<^sup>2 + (g1 - g2)\<^sup>2 + (b1 - b2)\<^sup>2"
  by (simp add: channels_def)

lemma get_similarity_self: "get_similarity c c = 1"
  by (cases c) (simp add: get_similarity_def square_sum)

lemma similarity_loop_step:
  "similarity_loop t bt bg chosen (c # cs) =
     similarity_loop t bt bg (if rejects t bt bg chosen c then chosen else chosen @ [c]) cs"
proof -
  have "similarity_loop t bt bg chosen (c # cs) =
     (if rejects t bt bg chosen c then similarity_loop t bt bg chosen cs
      else similarity_loop t bt bg (chosen @ [c]) cs)"
    unfolding rejects_def by (rule similarity_loop.simps(2))
  then show ?thesis
    by (cases "rejects t bt bg chosen c") (simp_all only: if_True if_False)
qed

lemma rejects_member:
  assumes "t < 1" "c \<in> set chosen"
  shows "rejects t bt bg chosen c"
proof -
  from assms(2) have "chosen \<noteq> []" by auto
  moreover have "get_similarity c c > t"
    using assms(1) by (simp add: get_similarity_self)
  with assms(2) have "list_ex (\<lambda>choice. get_similarity c choice > t) chosen"
    unfolding list_ex_iff by blast
  ultimately show ?thesis
    unfolding rejects_def by blast
qed

lemma similarity_loop_set:
  "set (similarity_loop t bt bg chosen cs) \<subseteq> set chosen \<union> set cs"
proof (induction cs arbitrary: chosen)
  case Nil
  show ?case by simp
next
  case (Cons c cs)
  show ?case
  proof (cases "rejects t bt bg chosen c")
    case True
    with Cons.IH [of chosen] show ?thesis
      unfolding similarity_loop_step by auto
  next
    case False
    with Cons.IH [of "chosen @ [c]"] show ?thesis
      unfolding similarity_loop_step by auto
  qed
qed

lemma similarity_loop_prefix:
  "\<exists>more. similarity_loop t bt bg chosen cs = chosen @ more"
proof (induction cs arbitrary: chosen)
  case Nil
  show ?case by simp
next
  case (Cons c cs)
  show ?case
  proof (cases "rejects t bt bg chosen c")
    case True
    with Cons.IH [of chosen] show ?thesis
      unfolding similarity_loop_step by simp
  next
    case False
    from Cons.IH [of "chosen @ [c]"] obtain more where
      "similarity_loop t bt bg (chosen @ [c]) cs = chosen @ ([c] @ more)"
      by auto
    with False show ?thesis
      unfolding similarity_loop_step by (simp del: append.simps)
  qed
qed

lemma similarity_loop_length:
  "length (similarity_loop t bt bg chosen cs) \<le> length chosen + length cs"
proof (induction cs arbitrary: chosen)
  case Nil
  show ?case by simp
next
  case (Cons c cs)
  from Cons.IH [of chosen] Cons.IH [of "chosen @ [c]"] show ?case
    unfolding similarity_loop_step by (cases "rejects t bt bg chosen c") simp_all
qed

lemma similarity_loop_distinct:
  assumes "t < 1" "distinct chosen"
  shows "distinct (similarity_loop t bt bg chosen cs)"
  using assms(2)
proof (induction cs arbitrary: chosen)
  case Nil
  then show ?case by simp
next
  case (Cons c cs)
  show ?case
  proof (cases "rejects t bt bg chosen c")
    case True
    with Cons.IH [OF Cons.prems] show ?thesis
      unfolding similarity_loop_step by simp
  next
    case False
    with rejects_member [OF assms(1)] have "c \<notin> set chosen" by blast
    with Cons.prems have "distinct (chosen @ [c])" by simp
    from Cons.IH [OF this] False show ?thesis
      unfolding similarity_loop_step by simp
  qed
qed

lemma filter_by_similarity_empty: "filter_by_similarity [] t = []"
  by (simp add: filter_by_similarity_def)

lemma filter_by_similarity_set: "set (filter_by_similarity cs t) \<subseteq> set cs"
proof (cases cs)
  case Nil
  then show ?thesis by (simp add: filter_by_similarity_def)
next
  case (Cons bg rest)
  then show ?thesis
    using similarity_loop_set [of t "max (1 - (1 - t) * 2) t" bg "[bg]" rest]
    by (simp add: filter_by_similarity_def Let_def)
qed

lemma filter_by_similarity_hd:
  assumes "cs \<noteq> []"
  shows "filter_by_similarity cs t \<noteq> [] \<and> hd (filter_by_similarity cs t) = hd cs"
proof -
  from assms obtain bg rest where cs: "cs = bg # rest" by (cases cs) auto
  from similarity_loop_prefix [of t "max (1 - (1 - t) * 2) t" bg "[bg]" rest]
  obtain more where "similarity_loop t (max (1 - (1 - t) * 2) t) bg [bg] rest = [bg] @ more"
    by blast
  then show ?thesis
    by (simp add: cs filter_by_similarity_def Let_def)
qed

lemma filter_by_similarity_distinct:
  assumes "t < 1"
  shows "distinct (filter_by_similarity cs t)"
proof (cases cs)
  case Nil
  then show ?thesis by (simp add: filter_by_similarity_def)
next
  case (Cons bg rest)
  have "distinct [bg]" by simp
  from similarity_loop_distinct [OF assms this] Cons show ?thesis
    by (simp add: filter_by_similarity_def Let_def)
qed

lemma filter_by_similarity_length: "length (filter_by_similarity cs t) \<le> length cs"
proof (cases cs)
  case Nil
  then show ?thesis by (simp add: filter_by_similarity_def)
next
  case (Cons bg rest)
  then show ?thesis
    using similarity_loop_length [of t "max (1 - (1 - t) * 2) t" bg "[bg]" rest]
    by (simp add: filter_by_similarity_def Let_def)
qed

lemma search_rounds:
  "palette_search cs k l r prev =
     (let rs = rounds cs k l r
      in if rs = [] then Exhausted prev
         else if length (snd (last rs)) = 16 then Found (snd (last rs))
         else Exhausted (Some (snd (last rs))))"
proof (induction k arbitrary: l r prev)
  case 0
  show ?case by simp
next
  case (Suc k)
  let ?m = "(l + r) / 2"
  let ?c = "filter_by_similarity cs ?m"
  consider (lt) "length ?c < 16" | (gt) "length ?c > 16" | (eq) "length ?c = 16"
    by linarith
  then show ?case
  proof cases
    case lt
    then show ?thesis
      using Suc.IH [of ?m r "Some ?c"] by (simp add: Let_def)
  next
    case gt
    then show ?thesis
      using Suc.IH [of l ?m "Some ?c"] by (simp add: Let_def)
  next
    case eq
    then show ?thesis by (simp add: Let_def)
  qed
qed

lemma rounds_probe:
  assumes "l < r" "(m, c) \<in> set (rounds cs k l r)"
  shows "l < m \<and> m < r \<and> c = filter_by_similarity cs m"
  using assms
proof (induction k arbitrary: l r)
  case 0
  then show ?case by simp
next
  case (Suc k)
  let ?m = "(l + r) / 2"
  let ?c = "filter_by_similarity cs ?m"
  from Suc.prems(1) have mid: "l < ?m" "?m < r" by simp_all
  from Suc.prems(2) consider (here) "(m, c) = (?m, ?c)"
    | (up) "(m, c) \<in> set (rounds cs k ?m r)"
    | (down) "(m, c) \<in> set (rounds cs k l ?m)"
    by (auto simp: Let_def split: if_splits)
  then show ?case
  proof cases
    case here
    then have "m = ?m" "c = ?c" by simp_all
    with mid show ?thesis by (simp only:)
  next
    case up
    from Suc.IH [OF mid(2) up] mid show ?thesis by simp
  next
    case down
    from Suc.IH [OF mid(1) down] mid show ?thesis by simp
  qed
qed

lemma rounds_last_only_16:
  assumes "(m, c) \<in> set (butlast (rounds cs k l r))"
  shows "length c \<noteq> 16"
  using assms
proof (induction k arbitrary: l r)
  case 0
  then show ?case by simp
next
  case (Suc k)
  then show ?case
    by (auto simp: Let_def split: if_splits)
qed

lemma get_similarity_distance:
  "get_similarity c1 c2 = 1 - sqrt (real_of_int (square_distance c1 c2)) / sqrt 195075"
proof -
  obtain r1 g1 b1 where c1: "c1 = (r1, g1, b1)" by (cases c1) auto
  obtain r2 g2 b2 where c2: "c2 = (r2, g2, b2)" by (cases c2) auto
  have "square_distance c1 c2 = (r1 - r2)\<^sup>2 + (g1 - g2)\<^sup>2 + (b1 - b2)\<^sup>2"
    by (simp add: c1 c2 square_distance_def)
  then show ?thesis
    unfolding get_similarity_def c1 c2 by (simp only: norm_const square_sum)
qed

lemma square_distance_nonneg: "0 \<le> square_distance c1 c2"
  by (cases c1; cases c2) (simp add: square_distance_def)

lemma similar_iff:
  assumes "t \<le> 1"
  shows "get_similarity c1 c2 > t \<longleftrightarrow> real_of_int (square_distance c1 c2) < (1 - t)\<^sup>2 * 195075"
proof -
  let ?d = "real_of_int (square_distance c1 c2)"
  have pos: "0 < sqrt (195075::real)" by simp
  have nn: "0 \<le> 1 - t" using assms by simp
  have "get_similarity c1 c2 > t \<longleftrightarrow> sqrt ?d / sqrt 195075 < 1 - t"
    unfolding get_similarity_distance by linarith
  also have "\<dots> \<longleftrightarrow> sqrt ?d < (1 - t) * sqrt 195075"
    using pos by (simp add: pos_divide_less_eq)
  also have "(1 - t) * sqrt 195075 = sqrt ((1 - t)\<^sup>2 * 195075)"
    using nn by (simp add: real_sqrt_mult)
  also have "sqrt ?d < sqrt ((1 - t)\<^sup>2 * 195075) \<longleftrightarrow> ?d < (1 - t)\<^sup>2 * 195075"
    by (rule real_sqrt_less_iff)
  finally show ?thesis .
qed

lemma background_close_iff:
  "(255 - real_of_int \<bar>py_sum c - py_sum bg\<bar> / 3) / 255 > t
     \<longleftrightarrow> real_of_int \<bar>py_sum c - py_sum bg\<bar> < 765 * (1 - t)"
  by (simp add: field_simps)

lemma background_threshold: "t \<le> 1 \<Longrightarrow> max (1 - (1 - t) * 2) t = (t::real)"
  by simp

lemma rejects_iff:
  assumes "t \<le> 1"
  shows "rejects t t bg chosen c \<longleftrightarrow>
     (\<exists>choice \<in> set chosen. real_of_int (square_distance c choice) < (1 - t)\<^sup>2 * 195075)
     \<or> real_of_int \<bar>py_sum c - py_sum bg\<bar> < 765 * (1 - t)"
  unfolding rejects_def list_ex_iff similar_iff [OF assms] background_close_iff
  by auto

lemma similarity_loop_keeps:
  assumes t: "t \<le> 1"
    and dist: "distinct (bg # pre @ cs)"
    and keep: "\<forall>c \<in> set cs. P c \<longrightarrow> 765 * (1 - t) \<le> real_of_int \<bar>py_sum c - py_sum bg\<bar>"
    and drop: "\<forall>c \<in> set cs. \<not> P c \<longrightarrow> real_of_int \<bar>py_sum c - py_sum bg\<bar> < 765 * (1 - t)"
    and far: "\<forall>c \<in> set cs. \<forall>c' \<in> set (bg # pre @ cs).
                P c \<and> (c' = bg \<or> P c') \<and> c \<noteq> c'
                \<longrightarrow> (1 - t)\<^sup>2 * 195075 \<le> real_of_int (square_distance c c')"
  shows "similarity_loop t t bg (bg # filter P pre) cs = bg # filter P (pre @ cs)"
  using dist keep drop far
proof (induction cs arbitrary: pre)
  case Nil
  show ?case by simp
next
  case (Cons c cs)
  have IH: "similarity_loop t t bg (bg # filter P (pre @ [c])) cs = bg # filter P ((pre @ [c]) @ cs)"
  proof (rule Cons.IH)
    show "distinct (bg # (pre @ [c]) @ cs)"
      using Cons.prems(1) by simp
    show "\<forall>c \<in> set cs. P c \<longrightarrow> 765 * (1 - t) \<le> real_of_int \<bar>py_sum c - py_sum bg\<bar>"
      using Cons.prems(2) by simp
    show "\<forall>c \<in> set cs. \<not> P c \<longrightarrow> real_of_int \<bar>py_sum c - py_sum bg\<bar> < 765 * (1 - t)"
      using Cons.prems(3) by simp
    show "\<forall>x \<in> set cs. \<forall>c' \<in> set (bg # (pre @ [c]) @ cs).
                P x \<and> (c' = bg \<or> P c') \<and> x \<noteq> c'
                \<longrightarrow> (1 - t)\<^sup>2 * 195075 \<le> real_of_int (square_distance x c')"
      using Cons.prems(4) by simp
  qed
  show ?case
  proof (cases "P c")
    case True
    have bgok: "\<not> real_of_int \<bar>py_sum c - py_sum bg\<bar> < 765 * (1 - t)"
      using Cons.prems(2) True by (simp add: not_less)
    have "\<not> real_of_int (square_distance c choice) < (1 - t)\<^sup>2 * 195075"
      if "choice \<in> set (bg # filter P pre)" for choice
    proof -
      from that have mem: "choice \<in> set (bg # pre @ c # cs)" and ok: "choice = bg \<or> P choice"
        by auto
      from that Cons.prems(1) have "c \<noteq> choice" by auto
      with Cons.prems(4) True mem ok
      have "(1 - t)\<^sup>2 * 195075 \<le> real_of_int (square_distance c choice)"
        by (metis list.set_intros(1))
      then show ?thesis by (simp add: not_less)
    qed
    with bgok have "\<not> rejects t t bg (bg # filter P pre) c"
      unfolding rejects_iff [OF t] by blast
    then have "similarity_loop t t bg (bg # filter P pre) (c # cs)
               = similarity_loop t t bg (bg # filter P (pre @ [c])) cs"
      unfolding similarity_loop_step using True by simp
    with IH show ?thesis by simp
  next
    case False
    with Cons.prems(3) have "real_of_int \<bar>py_sum c - py_sum bg\<bar> < 765 * (1 - t)"
      by simp
    then have "rejects t t bg (bg # filter P pre) c"
      unfolding rejects_iff [OF t] by blast
    then have "similarity_loop t t bg (bg # filter P pre) (c # cs)
               = similarity_loop t t bg (bg # filter P (pre @ [c])) cs"
      unfolding similarity_loop_step using False by simp
    with IH show ?thesis by simp
  qed
qed

lemma filter_by_similarity_keeps:
  assumes t: "t \<le> 1"
    and dist: "distinct (bg # cs)"
    and keep: "\<forall>c \<in> set cs. P c \<longrightarrow> 765 * (1 - t) \<le> real_of_int \<bar>py_sum c - py_sum bg\<bar>"
    and drop: "\<forall>c \<in> set cs. \<not> P c \<longrightarrow> real_of_int \<bar>py_sum c - py_sum bg\<bar> < 765 * (1 - t)"
    and far: "\<forall>c \<in> set cs. \<forall>c' \<in> set (bg # cs).
                P c \<and> (c' = bg \<or> P c') \<and> c \<noteq> c'
                \<longrightarrow> (1 - t)\<^sup>2 * 195075 \<le> real_of_int (square_distance c c')"
  shows "filter_by_similarity (bg # cs) t = bg # filter P cs"
proof -
  have "similarity_loop t t bg (bg # filter P []) cs = bg # filter P ([] @ cs)"
    by (rule similarity_loop_keeps [OF t]) (use dist keep drop far in simp_all)
  then have "similarity_loop t (max (1 - (1 - t) * 2) t) bg [bg] cs = bg # filter P cs"
    by (simp only: background_threshold [OF t] filter.simps append.simps)
  then show ?thesis
    by (simp only: filter_by_similarity_def Let_def list.case)
qed

lemma rounds_nonempty: "rounds cs (Suc k) l r \<noteq> []"
  by (simp add: Let_def)

lemma rounds_empty_iff: "rounds cs k l r = [] \<longleftrightarrow> k = 0"
  by (cases k) (simp_all add: Let_def)

lemma filter_palette_rounds:
  "filter_palette self colours max_retries =
     (let rs = rounds (sort_key (\<lambda>x. py_sum x * (if dark self then 1 else - 1)) colours)
                 max_retries 0 1
      in if rs = [] then Inl UnboundLocal
         else let candidates = snd (last rs); n = length candidates
              in if n = 16 then Inr (candidates, [])
                 else if n < 8 then Inl (TooFewColours n)
                 else Inr (candidates, [OnlyFoundDistinct n]))"
  unfolding filter_palette_def search_rounds [of _ _ _ _ None]
  by (simp add: Let_def)

lemma last_round_probe:
  assumes "0 < k"
  shows "\<exists>m. 0 < m \<and> m < 1 \<and> last (rounds cs k 0 1) = (m, filter_by_similarity cs m)"
proof -
  from assms have ne: "rounds cs k 0 1 \<noteq> []"
    by (simp add: rounds_empty_iff)
  obtain m c where mc: "last (rounds cs k 0 1) = (m, c)"
    by (cases "last (rounds cs k 0 1)") auto
  with ne have "(m, c) \<in> set (rounds cs k 0 1)"
    using last_in_set by metis
  from rounds_probe [OF _ this] mc show ?thesis by auto
qed

lemma rounds_all_below:
  assumes below: "\<forall>t. l < t \<and> t < r \<longrightarrow> length (filter_by_similarity cs t) < 16"
    and lr: "l < r"
  shows "last (rounds cs (Suc k) l r)
         = (r - (r - l) / 2 ^ Suc k, filter_by_similarity cs (r - (r - l) / 2 ^ Suc k))"
  using below lr
proof (induction k arbitrary: l)
  case 0
  have e: "(l + r) / 2 = r - (r - l) / 2 ^ Suc 0"
    by (simp add: field_simps)
  have one: "rounds cs (Suc 0) l r = [((l + r) / 2, filter_by_similarity cs ((l + r) / 2))]"
    by (simp add: Let_def)
  show ?case
    unfolding one unfolding e by (rule last.simps [THEN trans]) simp
next
  case (Suc k)
  let ?m = "(l + r) / 2"
  from Suc.prems have m: "l < ?m" "?m < r" by simp_all
  with Suc.prems have lt: "length (filter_by_similarity cs ?m) < 16" by blast
  have below': "\<forall>t. ?m < t \<and> t < r \<longrightarrow> length (filter_by_similarity cs t) < 16"
    using Suc.prems(1) m by auto
  have "rounds cs (Suc (Suc k)) l r = (?m, filter_by_similarity cs ?m) # rounds cs (Suc k) ?m r"
    using lt by (simp add: Let_def)
  then have "last (rounds cs (Suc (Suc k)) l r) = last (rounds cs (Suc k) ?m r)"
    using rounds_nonempty [of cs k ?m r] by simp
  also have "\<dots> = (r - (r - ?m) / 2 ^ Suc k, filter_by_similarity cs (r - (r - ?m) / 2 ^ Suc k))"
    by (rule Suc.IH [OF below' m(2)])
  also have "r - (r - ?m) / 2 ^ Suc k = r - (r - l) / 2 ^ Suc (Suc k)"
    by (simp add: field_simps)
  finally show ?case .
qed

lemma filter_palette_all_below:
  assumes "\<forall>t. 0 < t \<and> t < 1 \<longrightarrow>
             length (filter_by_similarity (sort_key (\<lambda>x. py_sum x * (if dark self then 1 else - 1)) colours) t) < 16"
  shows "filter_palette self colours (Suc k) =
     (let candidates = filter_by_similarity
            (sort_key (\<lambda>x. py_sum x * (if dark self then 1 else - 1)) colours) (1 - 1 / 2 ^ Suc k);
          n = length candidates
      in if n < 8 then Inl (TooFewColours n) else Inr (candidates, [OnlyFoundDistinct n]))"
proof -
  let ?cs = "sort_key (\<lambda>x. py_sum x * (if dark self then 1 else - 1)) colours"
  let ?t = "1 - 1 / 2 ^ Suc k :: real"
  have last: "last (rounds ?cs (Suc k) 0 1) = (?t, filter_by_similarity ?cs ?t)"
    using rounds_all_below [OF assms, of k] by simp
  have "(1::real) < 2 ^ Suc k"
    by (rule one_less_power) simp_all
  then have "0 < ?t" "?t < 1"
    by (simp_all add: field_simps)
  with assms have "length (filter_by_similarity ?cs ?t) \<noteq> 16"
    by (metis less_irrefl)
  then show ?thesis
    unfolding filter_palette_rounds
    by (simp only: Let_def rounds_nonempty if_False last snd_conv)
qed

lemma filter_palette_sorted_rounds:
  "filter_palette self colours max_retries =
     (let rs = rounds (tone_sorted self colours) max_retries 0 1
      in if rs = [] then Inl UnboundLocal
         else let candidates = snd (last rs); n = length candidates
              in if n = 16 then Inr (candidates, [])
                 else if n < 8 then Inl (TooFewColours n)
                 else Inr (candidates, [OnlyFoundDistinct n]))"
  unfolding tone_sorted_def by (rule filter_palette_rounds)

lemma filter_palette_Inr:
  assumes "filter_palette self colours max_retries = Inr (res, ws)"
  shows "\<exists>m. 0 < m \<and> m < 1 \<and> res = filter_by_similarity (tone_sorted self colours) m
           \<and> last (rounds (tone_sorted self colours) max_retries 0 1) = (m, res)"
    and "8 \<le> length res"
    and "ws = (if length res = 16 then [] else [OnlyFoundDistinct (length res)])"
proof -
  let ?rs = "rounds (tone_sorted self colours) max_retries 0 1"
  from assms have ne: "?rs \<noteq> []"
    unfolding filter_palette_sorted_rounds by (auto simp: Let_def split: if_splits)
  then have k: "0 < max_retries"
    by (simp add: rounds_empty_iff)
  from last_round_probe [OF k, of "tone_sorted self colours"] obtain m where
    m: "0 < m" "m < 1" "last ?rs = (m, filter_by_similarity (tone_sorted self colours) m)"
    by blast
  from assms ne have res: "res = snd (last ?rs)"
    unfolding filter_palette_sorted_rounds by (auto simp: Let_def split: if_splits)
  with m show "\<exists>m. 0 < m \<and> m < 1 \<and> res = filter_by_similarity (tone_sorted self colours) m
           \<and> last ?rs = (m, res)"
    by auto
  from assms ne res show "8 \<le> length res"
    unfolding filter_palette_sorted_rounds by (auto simp: Let_def split: if_splits)
  from assms ne res show "ws = (if length res = 16 then [] else [OnlyFoundDistinct (length res)])"
    unfolding filter_palette_sorted_rounds by (auto simp: Let_def split: if_splits)
qed

text \<open>
  C2 (as amended). Whenever \<^verbatim>\<open>filter_palette\<close> returns, every returned colour is an element
  of the input, the returned colours are pairwise distinct and at least 8, the first of
  them is the anchor (the first candidate after the tone sort), and there are exactly 16 of
  them if and only if no warning was logged; otherwise the one warning names their number.
\<close>

theorem filter_palette_result:
  "filter_palette self colours max_retries = Inr (res, ws) \<longrightarrow>
     set res \<subseteq> set colours \<and> distinct res \<and> 8 \<le> length res
     \<and> hd res = hd (tone_sorted self colours)
     \<and> (ws = [] \<longleftrightarrow> length res = 16)
     \<and> (ws \<noteq> [] \<longleftrightarrow> ws = [OnlyFoundDistinct (length res)])"
proof
  assume r: "filter_palette self colours max_retries = Inr (res, ws)"
  from filter_palette_Inr(1) [OF r] obtain m where m: "0 < m" "m < 1"
    and res: "res = filter_by_similarity (tone_sorted self colours) m"
    by blast
  have len: "8 \<le> length res"
    by (rule filter_palette_Inr(2) [OF r])
  have wlog: "ws = (if length res = 16 then [] else [OnlyFoundDistinct (length res)])"
    by (rule filter_palette_Inr(3) [OF r])
  have "set res \<subseteq> set (tone_sorted self colours)"
    unfolding res by (rule filter_by_similarity_set)
  then have sub: "set res \<subseteq> set colours"
    by (simp add: tone_sorted_def)
  have dis: "distinct res"
    unfolding res by (rule filter_by_similarity_distinct [OF m(2)])
  from len have "res \<noteq> []" by auto
  then have "tone_sorted self colours \<noteq> []"
    unfolding res by (auto simp: filter_by_similarity_empty)
  from filter_by_similarity_hd [OF this, of m] have hd: "hd res = hd (tone_sorted self colours)"
    unfolding res by simp
  from sub dis len hd wlog
  show "set res \<subseteq> set colours \<and> distinct res \<and> 8 \<le> length res
     \<and> hd res = hd (tone_sorted self colours)
     \<and> (ws = [] \<longleftrightarrow> length res = 16)
     \<and> (ws \<noteq> [] \<longleftrightarrow> ws = [OnlyFoundDistinct (length res)])"
    by (simp split: if_splits)
qed

lemma few_distinct_below:
  assumes "card (set colours) < 8" "t < 1"
  shows "length (filter_by_similarity (tone_sorted self colours) t) < 8"
proof -
  let ?c = "filter_by_similarity (tone_sorted self colours) t"
  have "distinct ?c"
    by (rule filter_by_similarity_distinct [OF assms(2)])
  then have "length ?c = card (set ?c)"
    by (simp add: distinct_card)
  also have "set ?c \<subseteq> set colours"
    using filter_by_similarity_set [of "tone_sorted self colours" t] by (simp add: tone_sorted_def)
  then have "card (set ?c) \<le> card (set colours)"
    by (intro card_mono) simp_all
  finally show ?thesis
    using assms(1) by simp
qed

lemma filter_palette_few_distinct:
  assumes "card (set colours) < 8" "0 < max_retries"
  shows "\<exists>n<8. filter_palette self colours max_retries = Inl (TooFewColours n)"
proof -
  from assms(2) obtain k where k: "max_retries = Suc k"
    by (cases max_retries) auto
  let ?cs = "sort_key (\<lambda>x. py_sum x * (if dark self then 1 else - 1)) colours"
  have few: "length (filter_by_similarity ?cs t) < 8" if "t < 1" for t
    using few_distinct_below [OF assms(1) that, of self] unfolding tone_sorted_def .
  have below: "\<forall>t. 0 < t \<and> t < 1 \<longrightarrow> length (filter_by_similarity ?cs t) < 16"
  proof (intro allI impI)
    fix t :: real
    assume "0 < t \<and> t < 1"
    then have "t < 1" by blast
    from few [OF this] show "length (filter_by_similarity ?cs t) < 16" by simp
  qed
  have "(1::real) < 2 ^ Suc k"
    by (rule one_less_power) simp_all
  then have "1 - 1 / 2 ^ Suc k < (1::real)"
    by (simp add: field_simps)
  from few [OF this] have n: "length (filter_by_similarity ?cs (1 - 1 / 2 ^ Suc k)) < 8" .
  have "filter_palette self colours (Suc k)
        = Inl (TooFewColours (length (filter_by_similarity ?cs (1 - 1 / 2 ^ Suc k))))"
    using n by (simp only: filter_palette_all_below [OF below] Let_def if_True)
  with n show ?thesis
    unfolding k by blast
qed

lemma filter_palette_raises_iff:
  "filter_palette self colours max_retries = Inl (TooFewColours n) \<longleftrightarrow>
     0 < max_retries \<and> n < 8
     \<and> length (snd (last (rounds (tone_sorted self colours) max_retries 0 1))) = n"
  unfolding filter_palette_sorted_rounds
  by (auto simp: Let_def rounds_empty_iff)

lemma filter_palette_nil:
  assumes "0 < max_retries"
  shows "filter_palette self [] max_retries = Inl (TooFewColours 0)"
proof -
  have empty: "tone_sorted self [] = []"
    by (simp add: tone_sorted_def)
  from last_round_probe [OF assms, of "[]"] obtain m where
    "last (rounds [] max_retries 0 1) = (m, filter_by_similarity [] m)"
    by blast
  then have "length (snd (last (rounds (tone_sorted self []) max_retries 0 1))) = 0"
    by (simp add: empty filter_by_similarity_empty)
  with assms show ?thesis
    by (simp add: filter_palette_raises_iff)
qed

text \<open>
  C5 (as amended). On an empty candidate sequence \<^verbatim>\<open>filter_by_similarity\<close> returns the
  empty sequence, and \<^verbatim>\<open>filter_palette\<close>, for any positive number of rounds, raises the
  error of too few colours with \<open>n = 0\<close>.
\<close>

theorem filter_palette_empty:
  "filter_by_similarity [] t = []
   \<and> (0 < max_retries \<longrightarrow> filter_palette self [] max_retries = Inl (TooFewColours 0))"
  using filter_palette_nil [of max_retries self] by (simp add: filter_by_similarity_empty)

theorem filter_palette_empty_witness:
  "(0::nat) < 1 \<and> filter_palette \<lparr>dark = False, palette = 0\<rparr> [] 1 = Inl (TooFewColours 0)"
  using filter_palette_empty [of 0 1 "\<lparr>dark = False, palette = 0\<rparr>"] by simp

text \<open>
  C5 as stated fails: with the default 50 rounds the empty sequence makes every round find
  0 colours, and \<^verbatim>\<open>filter_palette\<close> raises instead of returning the empty sequence.
\<close>

theorem filter_palette_empty_raises:
  "filter_palette \<lparr>dark = True, palette = 0\<rparr> [] 50 = Inl (TooFewColours 0)"
  by (rule filter_palette_nil) simp






end
